theory Spec2Isabelle
  imports Complex_Main "HOL-Library.Sublist" "HOL-Library.Multiset"
begin

section \<open>JavaScript strings\<close>

text \<open>
  A string is a list of code units; a \<open>char\<close> stands for a UTF-16 code unit below 256.
  Among those, \<open>String.prototype.trim\<close> strips TAB, LF, VT, FF, CR, SPACE and NBSP.
\<close>

definition isWhiteSpace :: "char \<Rightarrow> bool" where
  "isWhiteSpace c = (of_char c \<in> {9, 10, 11, 12, 13, 32, 160 :: nat})"

definition trim :: "string \<Rightarrow> string" where
  "trim s = rev (dropWhile isWhiteSpace (rev (dropWhile isWhiteSpace s)))"

text \<open>\<open>s.indexOf(p)\<close>: the position of the first occurrence, if there is one.\<close>

fun indexOf :: "string \<Rightarrow> string \<Rightarrow> nat option" where
  "indexOf [] p = (if p = [] then Some 0 else None)"
| "indexOf (c # cs) p =
     (if prefix p (c # cs) then Some 0 else map_option Suc (indexOf cs p))"

definition string_includes :: "string \<Rightarrow> string \<Rightarrow> bool" where
  "string_includes s p = (indexOf s p \<noteq> None)"

text \<open>
  \<open>GetSubstitution\<close> of ECMAScript for a string pattern (no captures, no named groups):
  in the replacement template \<open>$$\<close> stands for \<open>$\<close>, \<open>$&\<close> for the matched text,
  \<open>$`\<close> for the text before the match and \<open>$'\<close> for the text after it; \<open>$n\<close> and
  \<open>$<\<close> stay as they are, since there is no capture to refer to.
\<close>

fun getSubstitution :: "string \<Rightarrow> string \<Rightarrow> nat \<Rightarrow> string \<Rightarrow> string" where
  "getSubstitution matched str position [] = []"
| "getSubstitution matched str position [c] = [c]"
| "getSubstitution matched str position (c # d # rest) =
     (if c = CHR ''$'' \<and> d = CHR ''$'' then
        CHR ''$'' # getSubstitution matched str position rest
      else if c = CHR ''$'' \<and> d = CHR 0x60 then
        take position str @ getSubstitution matched str position rest
      else if c = CHR ''$'' \<and> d = CHR ''&'' then
        matched @ getSubstitution matched str position rest
      else if c = CHR ''$'' \<and> d = CHR 0x27 then
        drop (position + length matched) str @ getSubstitution matched str position rest
      else c # getSubstitution matched str position (d # rest))"

text \<open>\<open>s.replace(searchValue, replaceValue)\<close> with both arguments strings.\<close>

definition replace :: "string \<Rightarrow> string \<Rightarrow> string \<Rightarrow> string" where
  "replace s searchValue replaceValue =
     (case indexOf s searchValue of
        None \<Rightarrow> s
      | Some pos \<Rightarrow>
          take pos s @ getSubstitution searchValue s pos replaceValue
            @ drop (pos + length searchValue) s)"

text \<open>The replacement the tool's description promises: the new text as it is.\<close>

definition replace_first :: "string \<Rightarrow> string \<Rightarrow> string \<Rightarrow> string" where
  "replace_first s old new =
     (case indexOf s old of
        None \<Rightarrow> s
      | Some pos \<Rightarrow> take pos s @ new @ drop (pos + length old) s)"

definition toLowerCase_char :: "char \<Rightarrow> char" where
  "toLowerCase_char c =
     (let n = (of_char c :: nat) in
      if (65 \<le> n \<and> n \<le> 90) \<or> (192 \<le> n \<and> n \<le> 222 \<and> n \<noteq> 215)
      then char_of (n + 32) else c)"

definition toLowerCase :: "string \<Rightarrow> string" where
  "toLowerCase s = map toLowerCase_char s"

section \<open>Errors and effects\<close>

text \<open>
  An \<open>Effect\<close> either fails with a typed error (\<open>MemoryError\<close>, \<open>StorageError\<close>: an
  operation name and a cause) or dies with a defect, which is what an exception thrown
  outside \<open>Effect.try\<close> becomes. Writes made before the failure stay: every operation
  returns the store it leaves behind, also when it fails.
\<close>

datatype cause = SqlError | JsonSyntaxError | AiRejected | LlmRejected | Msg string

datatype error =
    MemoryError string cause
  | StorageError string cause
  | Defect cause

section \<open>The store\<close>

datatype MemoryBlockType = Core | Archival

type_synonym metadata = "(string \<times> string) list"

record MemoryBlock =
  block_id :: string
  label :: string
  content :: string
  block_type :: MemoryBlockType
  updated_at :: int
  metadata :: metadata

text \<open>
  The \<open>metadata\<close> column is text, read back as \<open>JSON.parse(text || '{}')\<close>. The column is
  kept by what that expression makes of it: NULL and the empty text give the empty object,
  a text that parses gives its object, any other text makes \<open>JSON.parse\<close> throw.
\<close>

datatype metadata_text = NullOrEmpty | JsonText metadata | Malformed

fun JSON_parse_or_empty :: "metadata_text \<Rightarrow> metadata option" where
  "JSON_parse_or_empty NullOrEmpty = Some []"
| "JSON_parse_or_empty (JsonText m) = Some m"
| "JSON_parse_or_empty Malformed = None"

record block_row =
  row_id :: string
  row_label :: string
  row_content :: string
  row_type :: MemoryBlockType
  row_updated_at :: int
  row_metadata :: metadata_text

text \<open>
  A row of the embeddings table. The \<open>embedding\<close> column, JSON text in the database, is
  kept as the vector that text parses to.
\<close>

record embedding_row =
  emb_block_id :: string
  embedding :: "real list"
  emb_updated_at :: int

record legacy_row =
  purpose :: string
  text_col :: string
  legacy_updated_at :: int

record ConversationSummary =
  summary_id :: nat
  summary :: string
  summary_level :: nat
  message_count :: nat
  parent_summary_id :: "nat option"
  created_at :: int

text \<open>What the embedding model and the language model answer to a request.\<close>

datatype ai_response = AiThrows | AiResult "real list list option"

datatype llm_response = LlmThrows | LlmText string

text \<open>
  A table is \<open>None\<close> while it does not exist, and the list of its rows in insertion order
  otherwise. \<open>blocksCache\<close> is the manager's \<open>Map\<close>. The last eight fields are the
  world outside: the successive readings of \<open>Date.now()\<close>, the answers of the embedding
  model and of the language model to the n-th request, the order in which the database
  returns rows of equal sort key in its n-th \<open>ORDER BY\<close> query, and how many of each have
  been asked for.
\<close>

record store =
  memory_blocks :: "block_row list option"
  blocksCache :: "string \<rightharpoonup> MemoryBlock"
  memory_embeddings :: "embedding_row list option"
  conversation_summaries_v2 :: "ConversationSummary list option"
  summaries_sequence :: nat
  foreign_keys :: bool
  agent_memory :: "legacy_row list option"
  agent_memory_legacy_backup :: "legacy_row list option"
  date_now :: "nat \<Rightarrow> int"
  now_reads :: nat
  ai_run :: "nat \<Rightarrow> string \<Rightarrow> ai_response"
  ai_calls :: nat
  generateText :: "nat \<Rightarrow> string \<Rightarrow> string \<Rightarrow> llm_response"
  llm_calls :: nat
  tie_order :: "nat \<Rightarrow> nat \<Rightarrow> nat"
  order_queries :: nat

definition Date_now :: "store \<Rightarrow> int \<times> store" where
  "Date_now s = (date_now s (now_reads s), s\<lparr>now_reads := Suc (now_reads s)\<rparr>)"

text \<open>
  \<open>SELECT \<dots> ORDER BY key\<close>: SQL fixes the order of rows whose keys differ and leaves
  the order of rows of equal key to the database. Its choice is a rank for each position
  of the selected rows: the rows are put in order of rank, then sorted by key, stably. A
  ranking that follows the positions gives table order among equal keys, one that runs
  against them the reverse, and so on. \<open>ORDER BY key DESC\<close> is the same with the key
  negated.
\<close>

definition order_rows :: "(nat \<Rightarrow> nat) \<Rightarrow> ('a \<Rightarrow> int) \<Rightarrow> 'a list \<Rightarrow> 'a list" where
  "order_rows rank key rows =
     map snd (sort_key (key \<circ> snd) (sort_key (rank \<circ> fst) (enumerate 0 rows)))"

definition order_by :: "('a \<Rightarrow> int) \<Rightarrow> 'a list \<Rightarrow> store \<Rightarrow> 'a list \<times> store" where
  "order_by key rows s =
     (order_rows (tie_order s (order_queries s)) key rows,
      s\<lparr>order_queries := Suc (order_queries s)\<rparr>)"

section \<open>Memory blocks\<close>

definition block_of_row :: "block_row \<Rightarrow> metadata \<Rightarrow> MemoryBlock" where
  "block_of_row row m =
     \<lparr>block_id = row_id row, label = row_label row, content = row_content row,
      block_type = row_type row, updated_at = row_updated_at row, metadata = m\<rparr>"

definition getBlock :: "string \<Rightarrow> store \<Rightarrow> (error + MemoryBlock option) \<times> store" where
  "getBlock i s =
     (case blocksCache s i of
        Some cached \<Rightarrow> (Inr (Some cached), s)
      | None \<Rightarrow>
          (case memory_blocks s of
             None \<Rightarrow> (Inl (MemoryError ''getBlock'' SqlError), s)
           | Some rows \<Rightarrow>
               (case find (\<lambda>r. row_id r = i) rows of
                  None \<Rightarrow> (Inr None, s)
                | Some row \<Rightarrow>
                    (case JSON_parse_or_empty (row_metadata row) of
                       None \<Rightarrow> (Inl (MemoryError ''getBlock'' JsonSyntaxError), s)
                     | Some m \<Rightarrow>
                         (Inr (Some (block_of_row row m)),
                          s\<lparr>blocksCache := (blocksCache s)(i \<mapsto> block_of_row row m)\<rparr>)))))"

text \<open>
  \<open>INSERT INTO memory_blocks\<close> fails when the table is missing and when the primary key
  is taken. The time is read before the statement runs.
\<close>

definition createBlock ::
  "string \<Rightarrow> string \<Rightarrow> string \<Rightarrow> MemoryBlockType \<Rightarrow> store \<Rightarrow> (error + MemoryBlock) \<times> store" where
  "createBlock i l c t s =
     (let (timestamp, s1) = Date_now s in
      case memory_blocks s1 of
        None \<Rightarrow> (Inl (MemoryError ''createBlock'' SqlError), s1)
      | Some rows \<Rightarrow>
          if i \<in> set (map row_id rows) then (Inl (MemoryError ''createBlock'' SqlError), s1)
          else
            let block = \<lparr>block_id = i, label = l, content = c, block_type = t,
                         updated_at = timestamp, metadata = []\<rparr>
            in (Inr block,
                s1\<lparr>memory_blocks :=
                     Some (rows @ [\<lparr>row_id = i, row_label = l, row_content = c, row_type = t,
                                    row_updated_at = timestamp, row_metadata = JsonText []\<rparr>]),
                   blocksCache := (blocksCache s1)(i \<mapsto> block)\<rparr>))"

definition updateBlock :: "string \<Rightarrow> string \<Rightarrow> store \<Rightarrow> (error + unit) \<times> store" where
  "updateBlock i c s =
     (let (timestamp, s1) = Date_now s in
      case memory_blocks s1 of
        None \<Rightarrow> (Inl (MemoryError ''updateBlock'' SqlError), s1)
      | Some rows \<Rightarrow>
          (Inr (),
           s1\<lparr>memory_blocks :=
                Some (map (\<lambda>r. if row_id r = i
                                then r\<lparr>row_content := c, row_updated_at := timestamp\<rparr>
                                else r) rows),
              blocksCache :=
                (case blocksCache s1 i of
                   None \<Rightarrow> blocksCache s1
                 | Some cached \<Rightarrow>
                     (blocksCache s1)(i \<mapsto> cached\<lparr>content := c, updated_at := timestamp\<rparr>))\<rparr>))"

definition deleteBlock :: "string \<Rightarrow> store \<Rightarrow> (error + unit) \<times> store" where
  "deleteBlock i s =
     (case memory_blocks s of
        None \<Rightarrow> (Inl (MemoryError ''deleteBlock'' SqlError), s)
      | Some rows \<Rightarrow>
          (Inr (),
           s\<lparr>memory_blocks := Some (filter (\<lambda>r. row_id r \<noteq> i) rows),
             blocksCache := (blocksCache s)(i := None)\<rparr>))"

datatype position = Start | End

definition insertContent ::
  "string \<Rightarrow> string \<Rightarrow> position \<Rightarrow> store \<Rightarrow> (error + unit) \<times> store" where
  "insertContent blockId c pos s =
     (case getBlock blockId s of
        (Inl e, s1) \<Rightarrow> (Inl e, s1)
      | (Inr None, s1) \<Rightarrow>
          (Inl (MemoryError ''insertContent'' (Msg (''Block not found: '' @ blockId))), s1)
      | (Inr (Some block), s1) \<Rightarrow>
          (let newContent =
                 (if pos = Start then c @ ''\<newline>'' @ content block
                  else content block @ ''\<newline>'' @ c)
           in updateBlock blockId (trim newContent) s1))"

definition replaceContent ::
  "string \<Rightarrow> string \<Rightarrow> string \<Rightarrow> store \<Rightarrow> (error + unit) \<times> store" where
  "replaceContent blockId oldContent newContent s =
     (case getBlock blockId s of
        (Inl e, s1) \<Rightarrow> (Inl e, s1)
      | (Inr None, s1) \<Rightarrow>
          (Inl (MemoryError ''replaceContent'' (Msg (''Block not found: '' @ blockId))), s1)
      | (Inr (Some block), s1) \<Rightarrow>
          updateBlock blockId (replace (content block) oldContent newContent) s1)"

text \<open>What a later \<open>getBlock\<close> shows of a block's content.\<close>

definition blockContent :: "string \<Rightarrow> store \<Rightarrow> string option" where
  "blockContent i s =
     (case fst (getBlock i s) of Inr (Some b) \<Rightarrow> Some (content b) | _ \<Rightarrow> None)"

text \<open>
  \<open>initializeDatabase\<close> of the block manager and \<open>initializeEmbeddingsTables\<close>:
  \<open>CREATE TABLE IF NOT EXISTS\<close> leaves an existing table alone.
\<close>

definition create_table_if_not_exists :: "'a list option \<Rightarrow> 'a list option" where
  "create_table_if_not_exists t = (case t of None \<Rightarrow> Some [] | Some rows \<Rightarrow> Some rows)"

definition initializeDatabase :: "store \<Rightarrow> (error + unit) \<times> store" where
  "initializeDatabase s =
     (Inr (), s\<lparr>memory_blocks := create_table_if_not_exists (memory_blocks s)\<rparr>)"

text \<open>The text \<open>insertContent\<close> joins before trimming it.\<close>

definition inserted :: "position \<Rightarrow> string \<Rightarrow> string \<Rightarrow> string" where
  "inserted pos old x = (if pos = Start then x @ ''\<newline>'' @ old else old @ ''\<newline>'' @ x)"

section \<open>Semantic search\<close>

definition initializeEmbeddingsTables :: "store \<Rightarrow> (error + unit) \<times> store" where
  "initializeEmbeddingsTables s =
     (Inr (), s\<lparr>memory_embeddings := create_table_if_not_exists (memory_embeddings s)\<rparr>)"

text \<open>
  \<open>generateEmbedding\<close>: a rejected request is a \<open>MemoryError\<close>; so is an answer without
  \<open>data\<close> or without a first vector.
\<close>

definition generateEmbedding :: "string \<Rightarrow> store \<Rightarrow> (error + real list) \<times> store" where
  "generateEmbedding txt s =
     (let s1 = s\<lparr>ai_calls := Suc (ai_calls s)\<rparr> in
      case ai_run s (ai_calls s) txt of
        AiThrows \<Rightarrow> (Inl (MemoryError ''generate embedding'' AiRejected), s1)
      | AiResult None \<Rightarrow>
          (Inl (MemoryError ''generate embedding'' (Msg ''No embedding returned from AI'')), s1)
      | AiResult (Some []) \<Rightarrow>
          (Inl (MemoryError ''generate embedding'' (Msg ''No embedding returned from AI'')), s1)
      | AiResult (Some (v # _)) \<Rightarrow> (Inr v, s1))"

text \<open>
  \<open>cosineSimilarity\<close>, with numbers taken as reals. The loop runs over the indices of
  \<open>a\<close>; it is only reached when both vectors have the same length.
\<close>

fun cosine_loop :: "real list \<Rightarrow> real list \<Rightarrow> real \<times> real \<times> real \<Rightarrow> real \<times> real \<times> real" where
  "cosine_loop (x # xs) (y # ys) (dotProduct, normA, normB) =
     cosine_loop xs ys (dotProduct + x * y, normA + x * x, normB + y * y)"
| "cosine_loop _ _ acc = acc"

definition cosineSimilarity :: "real list \<Rightarrow> real list \<Rightarrow> error + real" where
  "cosineSimilarity a b =
     (if length a \<noteq> length b then Inl (Defect (Msg ''Vectors must have same length''))
      else
        let (dotProduct, normA, normB) = cosine_loop a b (0, 0, 0);
            denominator = sqrt normA * sqrt normB
        in if denominator = 0 then Inr 0 else Inr (dotProduct / denominator))"

text \<open>
  \<open>INSERT OR REPLACE\<close> removes the row that holds the key, if any, and adds the new one.
  The statement is not wrapped in \<open>Effect.try\<close>: a missing table is a defect.
\<close>

definition storeBlockEmbedding :: "string \<Rightarrow> real list \<Rightarrow> store \<Rightarrow> (error + unit) \<times> store" where
  "storeBlockEmbedding blockId e s =
     (let (timestamp, s1) = Date_now s in
      case memory_embeddings s1 of
        None \<Rightarrow> (Inl (Defect SqlError), s1)
      | Some rows \<Rightarrow>
          (Inr (),
           s1\<lparr>memory_embeddings :=
                Some (filter (\<lambda>r. emb_block_id r \<noteq> blockId) rows
                      @ [\<lparr>emb_block_id = blockId, embedding = e,
                          emb_updated_at = timestamp\<rparr>])\<rparr>))"

text \<open>The \<open>Map\<close> built from the rows: a later row overrides an earlier one.\<close>

definition embeddings_map :: "embedding_row list \<Rightarrow> (string \<rightharpoonup> real list)" where
  "embeddings_map rows = map_of (rev (map (\<lambda>r. (emb_block_id r, embedding r)) rows))"

definition getAllBlockEmbeddings :: "store \<Rightarrow> (error + (string \<rightharpoonup> real list)) \<times> store" where
  "getAllBlockEmbeddings s =
     (case memory_embeddings s of
        None \<Rightarrow> (Inl (Defect SqlError), s)
      | Some rows \<Rightarrow> (Inr (embeddings_map rows), s))"

record MemorySearchResult =
  result_block :: MemoryBlock
  score :: real

text \<open>The loop of \<open>searchMemoryBlocks\<close>; \<open>results\<close> is the array pushed to.\<close>

fun score_loop ::
  "real list \<Rightarrow> (string \<rightharpoonup> real list) \<Rightarrow> real \<Rightarrow> MemoryBlock list \<Rightarrow> MemorySearchResult list
     \<Rightarrow> error + MemorySearchResult list" where
  "score_loop queryEmbedding blockEmbeddings threshold [] results = Inr results"
| "score_loop queryEmbedding blockEmbeddings threshold (block # blocks) results =
     (case blockEmbeddings (block_id block) of
        None \<Rightarrow> score_loop queryEmbedding blockEmbeddings threshold blocks results
      | Some e \<Rightarrow>
          (case cosineSimilarity queryEmbedding e of
             Inl err \<Rightarrow> Inl err
           | Inr sc \<Rightarrow>
               score_loop queryEmbedding blockEmbeddings threshold blocks
                 (if sc \<ge> threshold
                  then results @ [\<lparr>result_block = block, score = sc\<rparr>] else results)))"

text \<open>
  \<open>results.sort((a, b) => b.score - a.score)\<close>: \<open>Array.prototype.sort\<close> is stable, and
  the comparator orders by descending score.
\<close>

definition sort_by_score_desc :: "MemorySearchResult list \<Rightarrow> MemorySearchResult list" where
  "sort_by_score_desc results = sort_key (\<lambda>r. - score r) results"

text \<open>
  \<open>limit\<close> is a JavaScript number, and \<open>results.slice(0, limit)\<close> takes it through
  \<open>ToIntegerOrInfinity\<close>: \<open>NaN\<close> counts as 0, a finite number is truncated towards zero,
  and a negative end is counted back from the end of the array.
\<close>

datatype number = NaN | PlusInfinity | MinusInfinity | Finite real

definition truncate_real :: "real \<Rightarrow> int" where
  "truncate_real x = (if x < 0 then \<lceil>x\<rceil> else \<lfloor>x\<rfloor>)"

fun slice_from_0 :: "'a list \<Rightarrow> number \<Rightarrow> 'a list" where
  "slice_from_0 xs NaN = take 0 xs"
| "slice_from_0 xs PlusInfinity = take (length xs) xs"
| "slice_from_0 xs MinusInfinity = take 0 xs"
| "slice_from_0 xs (Finite x) =
     (let relativeEnd = truncate_real x;
          len = int (length xs);
          final = (if relativeEnd < 0 then max (len + relativeEnd) 0 else min relativeEnd len)
      in take (nat final) xs)"

definition searchMemoryBlocks ::
  "string \<Rightarrow> MemoryBlock list \<Rightarrow> number \<Rightarrow> real \<Rightarrow> store
     \<Rightarrow> (error + MemorySearchResult list) \<times> store" where
  "searchMemoryBlocks query blocks limit threshold s =
     (case generateEmbedding query s of
        (Inl e, s1) \<Rightarrow> (Inl e, s1)
      | (Inr queryEmbedding, s1) \<Rightarrow>
          (case getAllBlockEmbeddings s1 of
             (Inl e, s2) \<Rightarrow> (Inl e, s2)
           | (Inr blockEmbeddings, s2) \<Rightarrow>
               (case score_loop queryEmbedding blockEmbeddings threshold blocks [] of
                  Inl e \<Rightarrow> (Inl e, s2)
                | Inr results \<Rightarrow>
                    (Inr (slice_from_0 (sort_by_score_desc results) limit), s2))))"

text \<open>
  The loop of \<open>ensureBlockEmbeddings\<close>. \<open>existingEmbeddings\<close> is read once, before the
  loop, and not updated by it.
\<close>

fun ensure_loop ::
  "(string \<rightharpoonup> real list) \<Rightarrow> MemoryBlock list \<Rightarrow> nat \<Rightarrow> store \<Rightarrow> (error + nat) \<times> store" where
  "ensure_loop existingEmbeddings [] generated s = (Inr generated, s)"
| "ensure_loop existingEmbeddings (block # blocks) generated s =
     (if existingEmbeddings (block_id block) = None then
        (case generateEmbedding (content block) s of
           (Inl e, s1) \<Rightarrow> (Inl e, s1)
         | (Inr v, s1) \<Rightarrow>
             (case storeBlockEmbedding (block_id block) v s1 of
                (Inl e, s2) \<Rightarrow> (Inl e, s2)
              | (Inr _, s2) \<Rightarrow> ensure_loop existingEmbeddings blocks (Suc generated) s2))
      else ensure_loop existingEmbeddings blocks generated s)"

definition ensureBlockEmbeddings :: "MemoryBlock list \<Rightarrow> store \<Rightarrow> (error + nat) \<times> store" where
  "ensureBlockEmbeddings blocks s =
     (case getAllBlockEmbeddings s of
        (Inl e, s1) \<Rightarrow> (Inl e, s1)
      | (Inr existingEmbeddings, s1) \<Rightarrow> ensure_loop existingEmbeddings blocks 0 s1)"

definition updateBlockEmbedding :: "string \<Rightarrow> string \<Rightarrow> store \<Rightarrow> (error + unit) \<times> store" where
  "updateBlockEmbedding blockId c s =
     (case generateEmbedding c s of
        (Inl e, s1) \<Rightarrow> (Inl e, s1)
      | (Inr v, s1) \<Rightarrow> storeBlockEmbedding blockId v s1)"

text \<open>The block ids that have a row in the embedding table.\<close>

definition stored_ids :: "store \<Rightarrow> string set" where
  "stored_ids s = (case memory_embeddings s of None \<Rightarrow> {} | Some rows \<Rightarrow> set (map emb_block_id rows))"

section \<open>The replace tool\<close>

record tool_response =
  success :: bool
  message :: string

definition quoted :: "string \<Rightarrow> string" where
  "quoted x = [CHR 0x27] @ x @ [CHR 0x27]"

definition executeMemoryReplace ::
  "string \<Rightarrow> string \<Rightarrow> string \<Rightarrow> store \<Rightarrow> (error + tool_response) \<times> store" where
  "executeMemoryReplace blockId old_content new_content s =
     (case getBlock blockId s of
        (Inl e, s1) \<Rightarrow> (Inl e, s1)
      | (Inr None, s1) \<Rightarrow>
          (Inr \<lparr>success = False,
                message = ''Block '' @ quoted blockId @ '' does not exist.''\<rparr>, s1)
      | (Inr (Some block), s1) \<Rightarrow>
          if \<not> string_includes (content block) old_content then
            (Inr \<lparr>success = False,
                  message = ''Content to replace not found in block '' @ quoted blockId
                    @ ''. Current content: '' @ take 100 (content block) @ ''...''\<rparr>, s1)
          else
            (case replaceContent blockId old_content new_content s1 of
               (Inl e, s2) \<Rightarrow> (Inl e, s2)
             | (Inr _, s2) \<Rightarrow>
                 (Inr \<lparr>success = True,
                       message = ''Successfully replaced content in block ''
                         @ quoted blockId\<rparr>, s2)))"

section \<open>Recursive summarization\<close>

text \<open>The configuration; its fields are counts.\<close>

record SummarizationConfig =
  baseSummaryThreshold :: nat
  recursiveThreshold :: nat
  maxLevel :: nat
  recentSummaryCount :: nat

definition DEFAULT_CONFIG :: SummarizationConfig where
  "DEFAULT_CONFIG =
     \<lparr>baseSummaryThreshold = 20, recursiveThreshold = 10, maxLevel = 3,
      recentSummaryCount = 3\<rparr>"



datatype llm_format = OpenAI | Gemini | OtherFormat string






definition ask_llm :: "string \<Rightarrow> string \<Rightarrow> store \<Rightarrow> llm_response \<times> store" where
  "ask_llm system_text prompt s =
     (generateText s (llm_calls s) system_text prompt, s\<lparr>llm_calls := Suc (llm_calls s)\<rparr>)"

text \<open>
  \<open>INSERT\<close> into a table with an \<open>AUTOINCREMENT\<close> key: the new id is one more than the
  largest id the table has ever held. The statement is not wrapped in \<open>Effect.try\<close>.
\<close>

definition insert_summary ::
  "string \<Rightarrow> nat \<Rightarrow> nat \<Rightarrow> int \<Rightarrow> store \<Rightarrow> (error + nat) \<times> store" where
  "insert_summary txt lvl cnt timestamp s =
     (case conversation_summaries_v2 s of
        None \<Rightarrow> (Inl (Defect SqlError), s)
      | Some rows \<Rightarrow>
          (let new_id = Suc (fold max (map summary_id rows) (summaries_sequence s)) in
           (Inr new_id,
            s\<lparr>conversation_summaries_v2 :=
                 Some (rows @ [\<lparr>summary_id = new_id, summary = txt, summary_level = lvl,
                                message_count = cnt, parent_summary_id = None,
                                created_at = timestamp\<rparr>]),
              summaries_sequence := new_id\<rparr>)))"






text \<open>
  The query of \<open>checkRecursiveSummarizationNeeded\<close>: the unconsolidated rows of one
  level, oldest first (rows of equal age as the database orders them), at most \<open>n\<close> of
  them.
\<close>

definition select_unconsolidated ::
  "nat \<Rightarrow> nat \<Rightarrow> ConversationSummary list \<Rightarrow> store \<Rightarrow> ConversationSummary list \<times> store" where
  "select_unconsolidated lvl n rows s =
     (case order_by created_at
             (filter (\<lambda>r. summary_level r = lvl \<and> parent_summary_id r = None) rows) s of
        (ordered, s1) \<Rightarrow> (take n ordered, s1))"

record check_result =
  needed :: bool
  level :: "nat option"
  summaries :: "ConversationSummary list option"

function check_levels ::
  "SummarizationConfig \<Rightarrow> nat \<Rightarrow> store \<Rightarrow> (error + check_result) \<times> store" where
  "check_levels config lvl s =
     (if lvl < maxLevel config then
        (case conversation_summaries_v2 s of
           None \<Rightarrow> (Inl (Defect SqlError), s)
         | Some rows \<Rightarrow>
             (case select_unconsolidated lvl (recursiveThreshold config + 1) rows s of
                (found, s1) \<Rightarrow>
                  if length found \<ge> recursiveThreshold config then
                    (Inr \<lparr>needed = True, level = Some (lvl + 1),
                          summaries = Some (take (recursiveThreshold config) found)\<rparr>, s1)
                  else check_levels config (lvl + 1) s1))
      else (Inr \<lparr>needed = False, level = None, summaries = None\<rparr>, s))"
  by pat_completeness auto
termination
  by (relation "measure (\<lambda>(config, lvl, s). maxLevel config - lvl)") auto

declare check_levels.simps [simp del]

definition checkRecursiveSummarizationNeeded ::
  "SummarizationConfig \<Rightarrow> store \<Rightarrow> (error + check_result) \<times> store" where
  "checkRecursiveSummarizationNeeded config s = check_levels config 0 s"





text \<open>The parent recorded for the row with a given id, if there is such a row.\<close>

definition parent_of :: "store \<Rightarrow> nat \<Rightarrow> nat option option" where
  "parent_of s i =
     (case conversation_summaries_v2 s of
        None \<Rightarrow> None
      | Some rows \<Rightarrow> map_option parent_summary_id (find (\<lambda>r. summary_id r = i) rows))"

text \<open>
  The promotion rule in the words of the specification. \<open>unconsolidated_at\<close> are the
  unconsolidated summaries of a level, and \<open>ordered lvl\<close> stands for them in the order
  \<open>created_at ASC\<close> in which they are read: the first level below \<open>maxLevel\<close> that
  holds at least \<open>recursiveThreshold\<close> of them is promoted, with the first
  \<open>recursiveThreshold\<close> of them.
\<close>

definition unconsolidated_at :: "nat \<Rightarrow> ConversationSummary list \<Rightarrow> ConversationSummary list" where
  "unconsolidated_at lvl rows =
     filter (\<lambda>r. summary_level r = lvl \<and> parent_summary_id r = None) rows"

definition promotion_needed ::
  "SummarizationConfig \<Rightarrow> (nat \<Rightarrow> ConversationSummary list) \<Rightarrow> check_result" where
  "promotion_needed config ordered =
     (case find (\<lambda>lvl. recursiveThreshold config \<le> length (ordered lvl))
             [0 ..< maxLevel config] of
        None \<Rightarrow> \<lparr>needed = False, level = None, summaries = None\<rparr>
      | Some lvl \<Rightarrow>
          \<lparr>needed = True, level = Some (lvl + 1),
           summaries = Some (take (recursiveThreshold config) (ordered lvl))\<rparr>)"

section \<open>Migration\<close>

record MigrationResult =
  total :: nat
  migrated :: nat
  skipped :: nat
  errors :: "string list"

fun ensure_standard_blocks ::
  "(string \<times> string \<times> string) list \<Rightarrow> store \<Rightarrow> (error + unit) \<times> store" where
  "ensure_standard_blocks [] s = (Inr (), s)"
| "ensure_standard_blocks ((i, l, c) # rest) s =
     (case getBlock i s of
        (Inl e, s1) \<Rightarrow> (Inl e, s1)
      | (Inr (Some existing), s1) \<Rightarrow> ensure_standard_blocks rest s1
      | (Inr None, s1) \<Rightarrow>
          (case createBlock i l c Core s1 of
             (Inl e, s2) \<Rightarrow> (Inl e, s2)
           | (Inr _, s2) \<Rightarrow> ensure_standard_blocks rest s2))"

definition standardBlocks :: "(string \<times> string \<times> string) list" where
  "standardBlocks =
     [(''human'', ''Human'', []), (''persona'', ''Persona'', []),
      (''context'', ''Context'', [])]"

text \<open>\<open>purposeLower.match(/a|b|\<dots>/)\<close>: one of the words occurs in the string.\<close>

definition matches_any :: "string \<Rightarrow> string list \<Rightarrow> bool" where
  "matches_any s words = list_ex (string_includes s) words"

definition targetBlock :: "string \<Rightarrow> string" where
  "targetBlock p =
     (let purposeLower = toLowerCase p in
      if matches_any purposeLower
           [''user'', ''customer'', ''person'', ''human'', ''client'', ''people'']
      then ''human''
      else if matches_any purposeLower
           [''agent'', ''persona'', ''identity'', ''role'', ''assistant'']
      then ''persona''
      else ''context'')"

text \<open>
  The loop over the legacy rows. A failing \<open>insertContent\<close> is a failed effect, which
  ends the generator: the \<open>catch\<close> of the loop body sees thrown exceptions only, and
  with rows of strings nothing in the body throws. So \<open>skipped\<close> and \<open>errors\<close> stay
  as they start.
\<close>

fun migrate_rows ::
  "legacy_row list \<Rightarrow> MigrationResult \<Rightarrow> store \<Rightarrow> (error + MigrationResult) \<times> store" where
  "migrate_rows [] result s = (Inr result, s)"
| "migrate_rows (row # rows) result s =
     (let formattedContent = ''**'' @ purpose row @ ''**\<newline>'' @ text_col row in
      case insertContent (targetBlock (purpose row)) formattedContent End s of
        (Inl e, s1) \<Rightarrow> (Inl e, s1)
      | (Inr _, s1) \<Rightarrow> migrate_rows rows (result\<lparr>migrated := migrated result + 1\<rparr>) s1)"

text \<open>
  \<open>ALTER TABLE agent_memory RENAME TO agent_memory_legacy_backup\<close> fails when the new
  name is taken; the failure is ignored.
\<close>

definition rename_legacy_table :: "store \<Rightarrow> store" where
  "rename_legacy_table s =
     (case agent_memory_legacy_backup s of
        Some _ \<Rightarrow> s
      | None \<Rightarrow>
          (case agent_memory s of
             None \<Rightarrow> s
           | Some rows \<Rightarrow> s\<lparr>agent_memory := None, agent_memory_legacy_backup := Some rows\<rparr>))"

definition migrateLegacyMemoriesToBlocks :: "store \<Rightarrow> (error + MigrationResult) \<times> store" where
  "migrateLegacyMemoriesToBlocks s =
     (let result = \<lparr>total = 0, migrated = 0, skipped = 0, errors = []\<rparr> in
      case agent_memory s of
        None \<Rightarrow> (Inr result, s)
      | Some _ \<Rightarrow>
          (case ensure_standard_blocks standardBlocks s of
             (Inl e, s1) \<Rightarrow> (Inl e, s1)
           | (Inr _, s1) \<Rightarrow>
               (case agent_memory s1 of
                  None \<Rightarrow> (Inl (MemoryError ''query legacy memories'' SqlError), s1)
                | Some legacy \<Rightarrow>
                    (case order_by legacy_updated_at legacy s1 of
                       (memories, s2) \<Rightarrow>
                         (case migrate_rows memories (result\<lparr>total := length memories\<rparr>) s2 of
                            (Inl e, s3) \<Rightarrow> (Inl e, s3)
                          | (Inr result', s3) \<Rightarrow>
                              (Inr result',
                               if migrated result' > 0 then rename_legacy_table s3 else s3))))))"

definition checkMigrationNeeded :: "store \<Rightarrow> (error + bool) \<times> store" where
  "checkMigrationNeeded s =
     (let hasLegacyData =
            (case agent_memory s of None \<Rightarrow> False | Some rows \<Rightarrow> length rows > 0)
      in if \<not> hasLegacyData then (Inr False, s)
         else
           let hasNewData =
                 (case memory_blocks s of None \<Rightarrow> False | Some rows \<Rightarrow> length rows > 0)
           in (Inr (hasLegacyData \<and> \<not> hasNewData), s))"

text \<open>
  Every cached block has a row in the blocks table. The cache is filled from the table
  and every write goes to both, so this holds of every store the block manager produces.
\<close>

definition cache_in_table :: "store \<Rightarrow> bool" where
  "cache_in_table s =
     (\<forall>i b. blocksCache s i = Some b \<longrightarrow>
        (\<exists>rows. memory_blocks s = Some rows \<and> i \<in> set (map row_id rows)))"

text \<open>
  What the manager does when it is built: it fills the cache from the core rows, newest
  first; a missing table or a row whose metadata does not parse ends the loading, and what
  was cached before stays.
\<close>

fun load_rows :: "block_row list \<Rightarrow> (string \<rightharpoonup> MemoryBlock) \<Rightarrow> (string \<rightharpoonup> MemoryBlock)" where
  "load_rows [] cache = cache"
| "load_rows (row # rows) cache =
     (case JSON_parse_or_empty (row_metadata row) of
        None \<Rightarrow> cache
      | Some m \<Rightarrow> load_rows rows (cache(row_id row \<mapsto> block_of_row row m)))"

definition loadCache :: "store \<Rightarrow> store" where
  "loadCache s =
     (case memory_blocks s of
        None \<Rightarrow> s\<lparr>blocksCache := Map.empty\<rparr>
      | Some rows \<Rightarrow>
          (case order_by (\<lambda>r. - row_updated_at r) (filter (\<lambda>r. row_type r = Core) rows) s of
             (newest_first, s1) \<Rightarrow> s1\<lparr>blocksCache := load_rows newest_first Map.empty\<rparr>))"

text \<open>The blocks table exists and is not empty.\<close>

definition has_rows :: "store \<Rightarrow> bool" where
  "has_rows s = (\<exists>rows. memory_blocks s = Some rows \<and> rows \<noteq> [])"

section \<open>Example stores\<close>

text \<open>
  A store before any table exists, with a clock that ticks once per reading, an embedding
  model that answers every request, a language model that does so too and a database
  that returns rows of equal sort key in table order; and the same store once the block
  and embedding tables have been created.
\<close>

definition fresh_store :: store where
  "fresh_store =
     \<lparr>memory_blocks = None, blocksCache = Map.empty, memory_embeddings = None,
      conversation_summaries_v2 = None, summaries_sequence = 0, foreign_keys = True,
      agent_memory = None, agent_memory_legacy_backup = None,
      date_now = (\<lambda>n. 1000 + int n), now_reads = 0,
      ai_run = (\<lambda>n txt. AiResult (Some [[1, 0, 0]])), ai_calls = 0,
      generateText = (\<lambda>n sys prompt. LlmText ''A summary.''), llm_calls = 0,
      tie_order = (\<lambda>n i. i), order_queries = 0\<rparr>"

definition ready_store :: store where
  "ready_store = snd (initializeEmbeddingsTables (snd (initializeDatabase fresh_store)))"

text \<open>Three blocks, and a store whose embedding model rejects its second request.\<close>

definition block_a :: MemoryBlock where
  "block_a = \<lparr>block_id = ''a'', label = ''A'', content = ''alpha'', block_type = Core,
              updated_at = 1, metadata = []\<rparr>"

definition block_b :: MemoryBlock where
  "block_b = \<lparr>block_id = ''b'', label = ''B'', content = ''beta'', block_type = Core,
              updated_at = 2, metadata = []\<rparr>"

definition block_c :: MemoryBlock where
  "block_c = \<lparr>block_id = ''c'', label = ''C'', content = ''gamma'', block_type = Archival,
              updated_at = 3, metadata = []\<rparr>"

definition flaky_store :: store where
  "flaky_store = ready_store\<lparr>ai_run := (\<lambda>n txt. if n = 1 then AiThrows else AiResult (Some [[1, 0, 0]]))\<rparr>"

text \<open>A fourth block, and a store holding embeddings for the first three.\<close>

definition block_d :: MemoryBlock where
  "block_d = \<lparr>block_id = ''d'', label = ''D'', content = ''delta'', block_type = Core,
              updated_at = 4, metadata = []\<rparr>"

definition search_store :: store where
  "search_store =
     ready_store\<lparr>memory_embeddings :=
       Some [\<lparr>emb_block_id = ''a'', embedding = [1, 0, 0], emb_updated_at = 1\<rparr>,
             \<lparr>emb_block_id = ''b'', embedding = [0, 1, 0], emb_updated_at = 2\<rparr>,
             \<lparr>emb_block_id = ''c'', embedding = [1, 0, 0], emb_updated_at = 3\<rparr>]\<rparr>"

text \<open>
  Eleven base summaries, none consolidated, in a store with the default configuration's
  threshold of ten.
\<close>

definition base_row :: "nat \<Rightarrow> ConversationSummary" where
  "base_row i =
     \<lparr>summary_id = i, summary = ''A summary.'', summary_level = 0, message_count = 20,
      parent_summary_id = None, created_at = 1000 + int i\<rparr>"

definition ladder_rows :: "ConversationSummary list" where
  "ladder_rows = map base_row [1, 2, 3, 4, 5, 6, 7, 8, 9, 10, 11]"

definition ladder_store :: store where
  "ladder_store =
     fresh_store\<lparr>conversation_summaries_v2 := Some ladder_rows, summaries_sequence := 11\<rparr>"

text \<open>
  Four base summaries, the second and third equally old, in a database that returns rows
  of equal sort key last row first; and a configuration that promotes two at a time.
\<close>

definition tie_rows :: "ConversationSummary list" where
  "tie_rows =
     [(base_row 1)\<lparr>created_at := 1000\<rparr>, (base_row 2)\<lparr>created_at := 1001\<rparr>,
      (base_row 3)\<lparr>created_at := 1001\<rparr>, (base_row 4)\<lparr>created_at := 1002\<rparr>]"

definition tie_store :: store where
  "tie_store =
     fresh_store\<lparr>conversation_summaries_v2 := Some tie_rows, summaries_sequence := 4,
       tie_order := (\<lambda>n i. 4 - i)\<rparr>"

definition pairs_config :: SummarizationConfig where
  "pairs_config = DEFAULT_CONFIG\<lparr>recursiveThreshold := 2\<rparr>"




text \<open>A store with one block.\<close>

definition original_store :: store where
  "original_store = snd (createBlock ''b'' ''Block'' ''Original content'' Core ready_store)"

text \<open>A store whose one block holds a sentence.\<close>

definition old_text_store :: store where
  "old_text_store = snd (createBlock ''b'' ''Block'' ''The old text here'' Core ready_store)"

text \<open>A store with three legacy memories and no block yet.\<close>

definition legacy_store :: store where
  "legacy_store =
     ready_store\<lparr>agent_memory :=
       Some [\<lparr>purpose = ''customer_notes'', text_col = ''User likes dark mode'',
               legacy_updated_at = 1\<rparr>,
             \<lparr>purpose = ''user_preferences'', text_col = ''Prefers TypeScript'',
               legacy_updated_at = 2\<rparr>,
             \<lparr>purpose = ''agent_info'', text_col = ''I am a helpful assistant'',
               legacy_updated_at = 3\<rparr>]\<rparr>"

text \<open>The same store with a backup table that an earlier migration has left.\<close>

definition backup_store :: store where
  "backup_store =
     legacy_store\<lparr>agent_memory_legacy_backup :=
       Some [\<lparr>purpose = ''old_notes'', text_col = ''Migrated before'',
               legacy_updated_at = 0\<rparr>]\<rparr>"

section \<open>Block creation and retrieval\<close>

lemma Date_now_fields [simp]:
  "memory_blocks (snd (Date_now s)) = memory_blocks s"
  "blocksCache (snd (Date_now s)) = blocksCache s"
  "memory_embeddings (snd (Date_now s)) = memory_embeddings s"
  "agent_memory (snd (Date_now s)) = agent_memory s"
  "agent_memory_legacy_backup (snd (Date_now s)) = agent_memory_legacy_backup s"
  "conversation_summaries_v2 (snd (Date_now s)) = conversation_summaries_v2 s"
  "ai_calls (snd (Date_now s)) = ai_calls s"
  "fst (Date_now s) = date_now s (now_reads s)"
  by (simp_all add: Date_now_def)

lemma createBlock_cached:
  assumes "createBlock i l c t s = (Inr b, s')"
  shows "blocksCache s' i = Some b"
    and "b = \<lparr>block_id = i, label = l, content = c, block_type = t,
              updated_at = date_now s (now_reads s), metadata = []\<rparr>"
  using assms
  by (auto simp: createBlock_def Date_now_def Let_def split: option.splits if_splits)

text \<open>
  C4. After \<open>createBlock(id, label, content, type)\<close> has succeeded, \<open>getBlock(id)\<close> returns
  a block with that id, label, content and type, the empty object as metadata, and the
  time read at creation as \<open>updated_at\<close>; the read leaves the store as it is. Where the
  clock does not run backwards, that time is at most any later reading of it.
\<close>

theorem createBlock_then_getBlock:
  assumes "createBlock i l c t s = (Inr b, s')"
  shows "getBlock i s' = (Inr (Some b), s')
           \<and> b = \<lparr>block_id = i, label = l, content = c, block_type = t,
                    updated_at = date_now s (now_reads s), metadata = []\<rparr>
           \<and> (mono (date_now s) \<longrightarrow> (\<forall>n \<ge> now_reads s. updated_at b \<le> date_now s n))"
proof -
  from createBlock_cached [OF assms]
  have cached: "blocksCache s' i = Some b"
    and b: "b = \<lparr>block_id = i, label = l, content = c, block_type = t,
                 updated_at = date_now s (now_reads s), metadata = []\<rparr>"
    by simp_all
  have "getBlock i s' = (Inr (Some b), s')"
    using cached by (simp add: getBlock_def)
  moreover have "mono (date_now s) \<longrightarrow> (\<forall>n \<ge> now_reads s. updated_at b \<le> date_now s n)"
    using b by (auto dest: monoD)
  ultimately show ?thesis
    using b by simp
qed

lemmas ready_store_defs = ready_store_def fresh_store_def initializeDatabase_def
  initializeEmbeddingsTables_def create_table_if_not_exists_def

theorem createBlock_then_getBlock_witness:
  "fst (createBlock ''test-block'' ''Test Block'' ''Test content'' Core ready_store)
     = Inr \<lparr>block_id = ''test-block'', label = ''Test Block'', content = ''Test content'',
            block_type = Core, updated_at = 1000, metadata = []\<rparr>
   \<and> mono (date_now ready_store)
   \<and> fst (getBlock ''test-block''
         (snd (createBlock ''test-block'' ''Test Block'' ''Test content'' Core ready_store)))
     = Inr (Some \<lparr>block_id = ''test-block'', label = ''Test Block'', content = ''Test content'',
            block_type = Core, updated_at = 1000, metadata = []\<rparr>)
   \<and> (1000 :: int) \<le> date_now ready_store 5"
proof -
  have v: "fst (createBlock ''test-block'' ''Test Block'' ''Test content'' Core ready_store)
     = Inr \<lparr>block_id = ''test-block'', label = ''Test Block'', content = ''Test content'',
            block_type = Core, updated_at = 1000, metadata = []\<rparr>"
    by (simp add: createBlock_def ready_store_defs Date_now_def Let_def)
  then have h: "createBlock ''test-block'' ''Test Block'' ''Test content'' Core ready_store
      = (Inr \<lparr>block_id = ''test-block'', label = ''Test Block'', content = ''Test content'',
            block_type = Core, updated_at = 1000, metadata = []\<rparr>,
         snd (createBlock ''test-block'' ''Test Block'' ''Test content'' Core ready_store))"
    by (metis prod.collapse)
  have m: "mono (date_now ready_store)"
    by (simp add: ready_store_defs mono_def)
  have n: "now_reads ready_store \<le> 5"
    by (simp add: ready_store_defs)
  from createBlock_then_getBlock [OF h] v m n show ?thesis
    by simp
qed

section \<open>Ensuring block embeddings\<close>

lemma embeddings_map_eq_None: "embeddings_map rows k = None \<longleftrightarrow> k \<notin> set (map emb_block_id rows)"
  by (auto simp: embeddings_map_def map_of_eq_None_iff image_iff)

lemma generateEmbedding_table [simp]:
  "memory_embeddings (snd (generateEmbedding txt s)) = memory_embeddings s"
  by (simp add: generateEmbedding_def Let_def split: ai_response.splits option.splits list.splits)

lemma generateEmbedding_stored_ids [simp]:
  "stored_ids (snd (generateEmbedding txt s)) = stored_ids s"
  by (simp add: stored_ids_def)

lemma replaced_ids:
  "f r0 = k \<Longrightarrow> set (map f (filter (\<lambda>r. f r \<noteq> k) xs @ [r0])) = insert k (set (map f xs))"
  by (induction xs) auto

lemma storeBlockEmbedding_stored_ids:
  "storeBlockEmbedding k v s = (Inr u, s') \<Longrightarrow> stored_ids s' = insert k (stored_ids s)"
  by (auto simp: storeBlockEmbedding_def stored_ids_def Date_now_def Let_def replaced_ids
      simp del: set_map map_append set_append split: option.splits)

lemma ensure_loop_append:
  "ensure_loop E (pre @ rest) g s =
     (case ensure_loop E pre g s of
        (Inl e, s1) \<Rightarrow> (Inl e, s1)
      | (Inr n, s1) \<Rightarrow> ensure_loop E rest n s1)"
  by (induction E pre g s rule: ensure_loop.induct)
     (auto split: prod.splits sum.splits)

lemma ensure_loop_count:
  "ensure_loop E blocks g s = (Inr n, s') \<Longrightarrow>
     n = g + length (filter (\<lambda>b. E (block_id b) = None) blocks)"
  by (induction E blocks g s rule: ensure_loop.induct)
     (auto split: prod.splits sum.splits if_splits)

lemma ensure_loop_stored:
  "ensure_loop E blocks g s = (Inr n, s') \<Longrightarrow>
     stored_ids s' = stored_ids s \<union> {block_id b | b. b \<in> set blocks \<and> E (block_id b) = None}"
proof (induction E blocks g s rule: ensure_loop.induct)
  case (1 E g s)
  then show ?case by simp
next
  case (2 E block blocks g s)
  show ?case
  proof (cases "E (block_id block) = None")
    case True
    with "2.prems" obtain v s1 u s2 where
      g: "generateEmbedding (content block) s = (Inr v, s1)"
      and st: "storeBlockEmbedding (block_id block) v s1 = (Inr u, s2)"
      and rest: "ensure_loop E blocks (Suc g) s2 = (Inr n, s')"
      by (auto split: prod.splits sum.splits)
    have "stored_ids s1 = stored_ids s"
      using generateEmbedding_stored_ids [of "content block" s] g by simp
    with storeBlockEmbedding_stored_ids [OF st]
    have "stored_ids s2 = insert (block_id block) (stored_ids s)" by simp
    with "2.IH"(1) [OF True g [symmetric] refl st [symmetric] refl rest] True
    show ?thesis by auto
  next
    case False
    with "2.prems" have rest: "ensure_loop E blocks g s = (Inr n, s')" by simp
    from "2.IH"(2) [OF False rest] False show ?thesis by auto
  qed
qed

text \<open>
  C10. When \<open>ensureBlockEmbeddings\<close> succeeds, the count it returns is the number of
  input blocks (counted with repetition) that had no row in the embedding table when the
  call began. When the blocks before \<open>b\<close> have been handled and generating the
  embedding of \<open>b\<close>, which had no row, fails with \<open>e\<close>, the whole call fails with \<open>e\<close>:
  the blocks after \<open>b\<close> are not looked at, the table is as the earlier blocks left it,
  and every earlier block has a row.
\<close>

theorem ensureBlockEmbeddings_spec:
  "(\<forall>n s'. ensureBlockEmbeddings blocks s = (Inr n, s') \<longrightarrow>
       n = length (filter (\<lambda>b. block_id b \<notin> stored_ids s) blocks))
   \<and> (\<forall>pre b post m s1 e s2.
         blocks = pre @ b # post \<and> ensureBlockEmbeddings pre s = (Inr m, s1)
         \<and> block_id b \<notin> stored_ids s \<and> generateEmbedding (content b) s1 = (Inl e, s2) \<longrightarrow>
           ensureBlockEmbeddings blocks s = (Inl e, s2)
           \<and> memory_embeddings s2 = memory_embeddings s1
           \<and> block_id ` set pre \<subseteq> stored_ids s2)"
proof (intro conjI allI impI)
  fix n s'
  assume ok: "ensureBlockEmbeddings blocks s = (Inr n, s')"
  then obtain rows where rows: "memory_embeddings s = Some rows"
    and loop: "ensure_loop (embeddings_map rows) blocks 0 s = (Inr n, s')"
    by (auto simp: ensureBlockEmbeddings_def getAllBlockEmbeddings_def split: option.splits)
  from ensure_loop_count [OF loop] rows
  show "n = length (filter (\<lambda>b. block_id b \<notin> stored_ids s) blocks)"
    by (simp add: embeddings_map_eq_None stored_ids_def)
next
  fix pre b post m s1 e s2
  assume h: "blocks = pre @ b # post \<and> ensureBlockEmbeddings pre s = (Inr m, s1)
         \<and> block_id b \<notin> stored_ids s \<and> generateEmbedding (content b) s1 = (Inl e, s2)"
  then obtain rows where rows: "memory_embeddings s = Some rows"
    and loop: "ensure_loop (embeddings_map rows) pre 0 s = (Inr m, s1)"
    by (auto simp: ensureBlockEmbeddings_def getAllBlockEmbeddings_def split: option.splits)
  from h rows have lacking: "embeddings_map rows (block_id b) = None"
    by (simp add: embeddings_map_eq_None stored_ids_def)
  from h have gen: "generateEmbedding (content b) s1 = (Inl e, s2)" by simp
  have "ensure_loop (embeddings_map rows) (pre @ b # post) 0 s = (Inl e, s2)"
    by (simp add: ensure_loop_append loop lacking gen)
  with h rows show "ensureBlockEmbeddings blocks s = (Inl e, s2)"
    by (simp add: ensureBlockEmbeddings_def getAllBlockEmbeddings_def)
  from generateEmbedding_table [of "content b" s1] gen
  show same: "memory_embeddings s2 = memory_embeddings s1" by simp
  have "stored_ids s1 = stored_ids s
          \<union> {block_id p | p. p \<in> set pre \<and> embeddings_map rows (block_id p) = None}"
    by (rule ensure_loop_stored [OF loop])
  moreover have "stored_ids s2 = stored_ids s1"
    using same by (simp add: stored_ids_def)
  ultimately show "block_id ` set pre \<subseteq> stored_ids s2"
    using rows by (auto simp: embeddings_map_eq_None stored_ids_def)
qed

lemmas example_blocks = block_a_def block_b_def block_c_def

theorem ensureBlockEmbeddings_spec_witness:
  "ensureBlockEmbeddings [block_a, block_b] ready_store
     = (Inr 2, snd (ensureBlockEmbeddings [block_a, block_b] ready_store))
   \<and> (2 :: nat) = length (filter (\<lambda>b. block_id b \<notin> stored_ids ready_store) [block_a, block_b])
   \<and> fst (ensureBlockEmbeddings [block_a] flaky_store) = Inr 1
   \<and> block_id block_b \<notin> stored_ids flaky_store
   \<and> fst (generateEmbedding (content block_b) (snd (ensureBlockEmbeddings [block_a] flaky_store)))
       = Inl (MemoryError ''generate embedding'' AiRejected)
   \<and> fst (ensureBlockEmbeddings [block_a, block_b, block_c] flaky_store)
       = Inl (MemoryError ''generate embedding'' AiRejected)
   \<and> block_id ` set [block_a]
       \<subseteq> stored_ids (snd (ensureBlockEmbeddings [block_a, block_b, block_c] flaky_store))"
proof -
  have a: "fst (ensureBlockEmbeddings [block_a, block_b] ready_store) = Inr 2"
    by (simp add: ensureBlockEmbeddings_def getAllBlockEmbeddings_def embeddings_map_def
        generateEmbedding_def storeBlockEmbedding_def Date_now_def Let_def
        ready_store_defs example_blocks)
  have b: "fst (ensureBlockEmbeddings [block_a] flaky_store) = Inr 1"
    by (simp add: ensureBlockEmbeddings_def getAllBlockEmbeddings_def embeddings_map_def
        generateEmbedding_def storeBlockEmbedding_def Date_now_def Let_def
        flaky_store_def ready_store_defs example_blocks)
  have c: "block_id block_b \<notin> stored_ids flaky_store"
    by (simp add: stored_ids_def flaky_store_def ready_store_defs)
  have d: "fst (generateEmbedding (content block_b) (snd (ensureBlockEmbeddings [block_a] flaky_store)))
       = Inl (MemoryError ''generate embedding'' AiRejected)"
    by (simp add: ensureBlockEmbeddings_def getAllBlockEmbeddings_def embeddings_map_def
        generateEmbedding_def storeBlockEmbedding_def Date_now_def Let_def
        flaky_store_def ready_store_defs example_blocks)
  have a': "ensureBlockEmbeddings [block_a, block_b] ready_store
     = (Inr 2, snd (ensureBlockEmbeddings [block_a, block_b] ready_store))"
    using a by (metis prod.collapse)
  have b': "ensureBlockEmbeddings [block_a] flaky_store
     = (Inr 1, snd (ensureBlockEmbeddings [block_a] flaky_store))"
    using b by (metis prod.collapse)
  have d': "generateEmbedding (content block_b) (snd (ensureBlockEmbeddings [block_a] flaky_store))
       = (Inl (MemoryError ''generate embedding'' AiRejected),
          snd (generateEmbedding (content block_b) (snd (ensureBlockEmbeddings [block_a] flaky_store))))"
    using d by (metis prod.collapse)
  have l: "[block_a, block_b, block_c] = [block_a] @ block_b # [block_c]" by simp
  note spec = ensureBlockEmbeddings_spec [of "[block_a, block_b]" ready_store]
    ensureBlockEmbeddings_spec [of "[block_a, block_b, block_c]" flaky_store]
  from spec(1) a' have 1: "(2 :: nat) = length (filter (\<lambda>b. block_id b \<notin> stored_ids ready_store) [block_a, block_b])"
    by blast
  from spec(2) l b' c d' have 2: "ensureBlockEmbeddings [block_a, block_b, block_c] flaky_store
       = (Inl (MemoryError ''generate embedding'' AiRejected),
          snd (generateEmbedding (content block_b) (snd (ensureBlockEmbeddings [block_a] flaky_store))))
     \<and> block_id ` set [block_a]
       \<subseteq> stored_ids (snd (generateEmbedding (content block_b) (snd (ensureBlockEmbeddings [block_a] flaky_store))))"
    by blast
  from a' 1 b c d 2 show ?thesis by simp
qed

section \<open>Searching blocks by similarity\<close>

lemma score_loop_acc:
  "score_loop q E th blocks acc = Inr rs \<Longrightarrow>
     \<exists>new. rs = acc @ new
        \<and> (\<forall>r \<in> set new. score r \<ge> th \<and> E (block_id (result_block r)) \<noteq> None)
        \<and> subseq (map result_block new) blocks"
proof (induction q E th blocks acc arbitrary: rs rule: score_loop.induct)
  case (1 q E th results)
  then show ?case by simp
next
  case (2 q E th block blocks results)
  show ?case
  proof (cases "E (block_id block)")
    case None
    with "2.prems" have "score_loop q E th blocks results = Inr rs" by simp
    from "2.IH"(1) [OF None this] show ?thesis
      by (auto intro: subseq_Cons')
  next
    case (Some e)
    with "2.prems" obtain sc where sc: "cosineSimilarity q e = Inr sc"
      and rest: "score_loop q E th blocks
          (if sc \<ge> th then results @ [\<lparr>result_block = block, score = sc\<rparr>] else results) = Inr rs"
      by (auto split: sum.splits)
    from "2.IH"(2) [OF Some sc rest] obtain new where
      new: "rs = (if sc \<ge> th then results @ [\<lparr>result_block = block, score = sc\<rparr>] else results) @ new"
        "\<forall>r \<in> set new. score r \<ge> th \<and> E (block_id (result_block r)) \<noteq> None"
        "subseq (map result_block new) blocks"
      by blast
    show ?thesis
    proof (cases "sc \<ge> th")
      case True
      with new Some show ?thesis
        by (intro exI [of _ "\<lparr>result_block = block, score = sc\<rparr> # new"]) auto
    next
      case False
      with new show ?thesis
        by (intro exI [of _ new]) (auto intro: subseq_Cons')
    qed
  qed
qed

lemma sorted_desc: "sorted_wrt (\<lambda>a b. score a \<ge> score b) (sort_by_score_desc rs)"
proof -
  have "sorted (map (\<lambda>r. - score r) (sort_key (\<lambda>r. - score r) rs))"
    by (rule sorted_sort_key)
  then show ?thesis
    by (simp add: sort_by_score_desc_def sorted_map sorted_wrt_iff_nth_less)
qed

lemma ties_in_order:
  "filter (\<lambda>r. score r = k) (sort_by_score_desc rs) = filter (\<lambda>r. score r = k) rs"
proof -
  have "filter (\<lambda>r. - score r = - k) (sort_key (\<lambda>r. - score r) rs)
      = filter (\<lambda>r. - score r = - k) rs"
    by (rule sort_key_stable)
  then show ?thesis by (simp add: sort_by_score_desc_def)
qed

lemma set_sort_by_score_desc [simp]: "set (sort_by_score_desc rs) = set rs"
  by (simp add: sort_by_score_desc_def)

lemma subseq_mem: "subseq xs ys \<Longrightarrow> x \<in> set xs \<Longrightarrow> x \<in> set ys"
  by (auto dest: list_emb_set)

lemma filter_take_prefix: "prefix (filter P (take n xs)) (filter P xs)"
  by (metis append_take_drop_id filter_append prefixI)

lemma slice_from_0_take: "\<exists>n. slice_from_0 xs limit = take n xs"
proof (cases limit)
  case PlusInfinity
  then show ?thesis by (intro exI [of _ "length xs"]) simp
qed (auto simp: Let_def)

lemma truncate_real_minus_one: "truncate_real (- 1) = - 1"
proof -
  have "\<lceil>- 1 :: real\<rceil> = - 1" by (rule ceiling_unique) simp_all
  then show ?thesis by (simp add: truncate_real_def)
qed

lemma truncate_real_nonneg: "0 \<le> x \<Longrightarrow> 0 \<le> truncate_real x \<and> real_of_int (truncate_real x) \<le> x"
  by (simp add: truncate_real_def)

lemma slice_from_0_length:
  assumes "0 \<le> l"
  shows "real (length (slice_from_0 xs (Finite l))) \<le> l"
proof -
  from truncate_real_nonneg [OF assms] have t: "0 \<le> truncate_real l" and le: "real_of_int (truncate_real l) \<le> l"
    by simp_all
  have "length (slice_from_0 xs (Finite l)) \<le> nat (truncate_real l)"
    using t by (simp add: Let_def)
  then have "real (length (slice_from_0 xs (Finite l))) \<le> real (nat (truncate_real l))"
    by (simp only: of_nat_le_iff)
  also have "\<dots> = real_of_int (truncate_real l)" using t by simp
  finally show ?thesis using le by simp
qed

text \<open>
  C6, as the code has it. When \<open>searchMemoryBlocks\<close> returns, and \<open>limit\<close> is a number
  that is not negative, it returns at most \<open>limit\<close> pairs. Whatever \<open>limit\<close> is, every
  score is at least the threshold; every returned block is an input block that has a row
  in the embedding table, so a block without one is left out whatever the threshold; the
  pairs are in descending order of score; and pairs of equal score keep the order their
  blocks have in the input. Only the order of the scores matters for this, not their
  exact values.
\<close>

theorem searchMemoryBlocks_spec:
  assumes "searchMemoryBlocks query blocks limit threshold s = (Inr results, s')"
  shows "(\<forall>l \<ge> 0. limit = Finite l \<longrightarrow> real (length results) \<le> l)
    \<and> (\<forall>r \<in> set results. score r \<ge> threshold)
    \<and> (\<forall>r \<in> set results. result_block r \<in> set blocks
           \<and> block_id (result_block r) \<in> stored_ids s)
    \<and> sorted_wrt (\<lambda>a b. score a \<ge> score b) results
    \<and> (\<forall>k. subseq (map result_block (filter (\<lambda>r. score r = k) results)) blocks)"
proof -
  from assms obtain q s1 rows cands where
    gen: "generateEmbedding query s = (Inr q, s1)"
    and rows: "memory_embeddings s1 = Some rows"
    and loop: "score_loop q (embeddings_map rows) threshold blocks [] = Inr cands"
    and res0: "results = slice_from_0 (sort_by_score_desc cands) limit"
    by (auto simp: searchMemoryBlocks_def getAllBlockEmbeddings_def
        split: prod.splits sum.splits option.splits)
  from slice_from_0_take [of "sort_by_score_desc cands" limit] res0
  obtain n where res: "results = take n (sort_by_score_desc cands)" by auto
  from generateEmbedding_table [of query s] gen have rows0: "memory_embeddings s = Some rows"
    using rows by simp
  from score_loop_acc [OF loop] have
    c1: "\<forall>r \<in> set cands. score r \<ge> threshold \<and> embeddings_map rows (block_id (result_block r)) \<noteq> None"
    and c2: "subseq (map result_block cands) blocks"
    by auto
  have sub: "set results \<subseteq> set cands"
    using res set_take_subset [of n "sort_by_score_desc cands"] by simp
  have "\<forall>l \<ge> 0. limit = Finite l \<longrightarrow> real (length results) \<le> l"
    using res0 by (auto simp del: slice_from_0.simps intro: slice_from_0_length)
  moreover have "\<forall>r \<in> set results. score r \<ge> threshold" using c1 sub by blast
  moreover have "\<forall>r \<in> set results. result_block r \<in> set blocks
           \<and> block_id (result_block r) \<in> stored_ids s"
  proof
    fix r assume "r \<in> set results"
    with sub have r: "r \<in> set cands" by blast
    then have "result_block r \<in> set (map result_block cands)" by simp
    with c2 have "result_block r \<in> set blocks"
      by (rule subseq_mem)
    moreover from c1 r rows0 have "block_id (result_block r) \<in> stored_ids s"
      by (auto simp: embeddings_map_eq_None stored_ids_def)
    ultimately show "result_block r \<in> set blocks \<and> block_id (result_block r) \<in> stored_ids s"
      by simp
  qed
  moreover have "sorted_wrt (\<lambda>a b. score a \<ge> score b) results"
    unfolding res by (rule sorted_wrt_take [OF sorted_desc])
  moreover have "\<forall>k. subseq (map result_block (filter (\<lambda>r. score r = k) results)) blocks"
  proof
    fix k
    have "prefix (filter (\<lambda>r. score r = k) results) (filter (\<lambda>r. score r = k) cands)"
      unfolding res using filter_take_prefix [of "\<lambda>r. score r = k" n "sort_by_score_desc cands"]
      by (simp add: ties_in_order)
    then have "subseq (filter (\<lambda>r. score r = k) results) cands"
      by (meson prefix_imp_subseq subseq_filter_left subseq_order.order_trans)
    then have "subseq (map result_block (filter (\<lambda>r. score r = k) results)) (map result_block cands)"
      by (rule subseq_map)
    then show "subseq (map result_block (filter (\<lambda>r. score r = k) results)) blocks"
      using c2 by (rule subseq_order.order_trans)
  qed
  ultimately show ?thesis by blast
qed

lemma search_example:
  "fst (searchMemoryBlocks ''query'' [block_c, block_d, block_b, block_a] (Finite 5) (1/2)
          search_store)
     = Inr [\<lparr>result_block = block_c, score = 1\<rparr>, \<lparr>result_block = block_a, score = 1\<rparr>]"
  by (simp add: searchMemoryBlocks_def generateEmbedding_def getAllBlockEmbeddings_def
      embeddings_map_def cosineSimilarity_def sort_by_score_desc_def truncate_real_def Let_def
      search_store_def ready_store_defs example_blocks block_d_def)

text \<open>
  C6 as stated fails for a negative \<open>limit\<close>, which the search tool passes on as it
  receives it: with three blocks scoring at least the threshold and \<open>limit = -1\<close>,
  \<open>slice(0, -1)\<close> drops the last of the three and two pairs are returned.
\<close>

theorem negative_limit_counterexample:
  "fst (searchMemoryBlocks ''query'' [block_c, block_d, block_b, block_a] (Finite (- 1)) 0
          search_store)
     = Inr [\<lparr>result_block = block_c, score = 1\<rparr>, \<lparr>result_block = block_a, score = 1\<rparr>]
   \<and> \<not> real (length [\<lparr>result_block = block_c, score = 1\<rparr>, \<lparr>result_block = block_a, score = 1\<rparr>])
         \<le> - 1"
  by (simp add: searchMemoryBlocks_def generateEmbedding_def getAllBlockEmbeddings_def
      embeddings_map_def cosineSimilarity_def sort_by_score_desc_def truncate_real_minus_one
      Let_def search_store_def ready_store_defs example_blocks block_d_def)

theorem searchMemoryBlocks_spec_witness:
  "searchMemoryBlocks ''query'' [block_c, block_d, block_b, block_a] (Finite 5) (1/2) search_store
     = (Inr [\<lparr>result_block = block_c, score = 1\<rparr>, \<lparr>result_block = block_a, score = 1\<rparr>],
        snd (searchMemoryBlocks ''query'' [block_c, block_d, block_b, block_a] (Finite 5) (1/2)
               search_store))
   \<and> (0 :: real) \<le> 5
   \<and> real (length [\<lparr>result_block = block_c, score = 1\<rparr>, \<lparr>result_block = block_a, score = 1\<rparr>]) \<le> 5
   \<and> score \<lparr>result_block = block_c, score = 1\<rparr> \<ge> 1/2
   \<and> score \<lparr>result_block = block_a, score = 1\<rparr> \<ge> 1/2
   \<and> block_id block_c \<in> stored_ids search_store
   \<and> block_id block_a \<in> stored_ids search_store
   \<and> block_id block_d \<notin> stored_ids search_store
   \<and> subseq (map result_block (filter (\<lambda>r. score r = 1)
         [\<lparr>result_block = block_c, score = 1\<rparr>, \<lparr>result_block = block_a, score = 1\<rparr>]))
         [block_c, block_d, block_b, block_a]"
proof -
  have h: "searchMemoryBlocks ''query'' [block_c, block_d, block_b, block_a] (Finite 5) (1/2)
        search_store
     = (Inr [\<lparr>result_block = block_c, score = 1\<rparr>, \<lparr>result_block = block_a, score = 1\<rparr>],
        snd (searchMemoryBlocks ''query'' [block_c, block_d, block_b, block_a] (Finite 5) (1/2)
               search_store))"
    using search_example by (metis prod.collapse)
  have d: "block_id block_d \<notin> stored_ids search_store"
    by (simp add: stored_ids_def search_store_def block_d_def)
  from searchMemoryBlocks_spec [OF h] have
    "\<forall>l \<ge> 0. Finite 5 = Finite l \<longrightarrow>
       real (length [\<lparr>result_block = block_c, score = 1\<rparr>, \<lparr>result_block = block_a, score = 1\<rparr>]) \<le> l"
    and "\<forall>r \<in> set [\<lparr>result_block = block_c, score = 1\<rparr>, \<lparr>result_block = block_a, score = 1\<rparr>].
       score r \<ge> 1/2 \<and> block_id (result_block r) \<in> stored_ids search_store"
    and "subseq (map result_block (filter (\<lambda>r. score r = 1)
         [\<lparr>result_block = block_c, score = 1\<rparr>, \<lparr>result_block = block_a, score = 1\<rparr>]))
         [block_c, block_d, block_b, block_a]"
    by blast+
  with h d show ?thesis
    by simp
qed

section \<open>Ordered queries\<close>

text \<open>
  Whatever the database's ranking, an ordered query returns the selected rows, each as
  often as it was selected, in ascending order of the key; where no two rows share a
  key, the ranking has no say; and every arrangement of the selected rows in ascending
  order of the key is what some ranking gives, so no order that SQL allows is left out.
\<close>

lemma mset_order_rows [simp]: "mset (order_rows rank key rows) = mset rows"
proof -
  have "mset (order_rows rank key rows) = image_mset snd (mset (enumerate 0 rows))"
    by (simp add: order_rows_def)
  also have "\<dots> = mset (map snd (enumerate 0 rows))" by (simp only: mset_map)
  finally show ?thesis by (simp only: map_snd_enumerate)
qed

lemma set_order_rows [simp]: "set (order_rows rank key rows) = set rows"
  using mset_order_rows [of rank key rows] by (metis set_mset_mset)

lemma length_order_rows [simp]: "length (order_rows rank key rows) = length rows"
  by (simp add: order_rows_def)

lemma sorted_order_rows: "sorted (map key (order_rows rank key rows))"
proof -
  have "map key (order_rows rank key rows)
      = map (key \<circ> snd) (sort_key (key \<circ> snd) (sort_key (rank \<circ> fst) (enumerate 0 rows)))"
    by (simp add: order_rows_def)
  then show ?thesis by (simp only: sorted_sort_key)
qed

lemma order_rows_distinct:
  assumes "distinct (map key rows)"
  shows "order_rows rank key rows = sort_key key rows"
proof -
  have inj: "inj_on key (set rows)" using assms by (simp add: distinct_map)
  have "map key (order_rows rank key rows) = map key (sort_key key rows)"
  proof (rule sorted_distinct_set_unique)
    show "sorted (map key (order_rows rank key rows))" by (rule sorted_order_rows)
    show "sorted (map key (sort_key key rows))" by simp
    have "mset (map key (order_rows rank key rows)) = mset (map key rows)" by simp
    then show "distinct (map key (order_rows rank key rows))"
      using assms by (metis mset_eq_imp_distinct_iff)
    have "mset (map key (sort_key key rows)) = mset (map key rows)" by simp
    then show "distinct (map key (sort_key key rows))"
      using assms by (metis mset_eq_imp_distinct_iff)
    show "set (map key (order_rows rank key rows)) = set (map key (sort_key key rows))"
      by simp
  qed
  moreover have "inj_on key (set (order_rows rank key rows) \<union> set (sort_key key rows))"
    using inj by simp
  ultimately show ?thesis by (simp add: inj_on_map_eq_map)
qed

lemma filter_single:
  "distinct xs \<Longrightarrow> k \<in> set xs \<Longrightarrow> inj_on f (set xs) \<Longrightarrow> filter (\<lambda>x. f k = f x) xs = [k]"
proof (induction xs)
  case Nil
  then show ?case by simp
next
  case (Cons a xs)
  show ?case
  proof (cases "a = k")
    case True
    with Cons.prems have "\<forall>x \<in> set xs. f k \<noteq> f x"
      by (auto simp: inj_on_def)
    then have "filter (\<lambda>x. f k = f x) xs = []" by (simp add: filter_empty_conv)
    with True show ?thesis by simp
  next
    case False
    with Cons.prems have "k \<in> set xs" "distinct xs" "inj_on f (set xs)" "f k \<noteq> f a"
      by (auto simp: inj_on_def)
    with Cons.IH show ?thesis by simp
  qed
qed

lemma order_rows_complete:
  assumes perm: "mset ys = mset rows" and srt: "sorted (map key ys)"
  shows "\<exists>rank. order_rows rank key rows = ys"
proof -
  let ?n = "length rows"
  have len: "length ys = ?n" using perm by (rule mset_eq_length)
  from ex_mset_zip_left [of rows "[0 ..< ?n]" ys] perm obtain idx where
    li: "length idx = length ys" and mz: "mset (zip ys idx) = mset (zip rows [0 ..< ?n])"
    by auto
  let ?zs = "zip idx ys"
  have "?zs = map prod.swap (zip ys idx)"
    by (subst zip_commute) (simp add: prod.swap_def case_prod_beta)
  then have "mset ?zs = image_mset prod.swap (mset (zip ys idx))" by simp
  also have "\<dots> = mset (map prod.swap (zip rows [0 ..< ?n]))" by (simp add: mz)
  also have "map prod.swap (zip rows [0 ..< ?n]) = zip [0 ..< ?n] rows"
    by (subst zip_commute) (simp add: prod.swap_def case_prod_beta)
  finally have z1: "mset ?zs = mset (enumerate 0 rows)"
    by (simp add: enumerate_eq_zip)
  have "mset (map fst ?zs) = mset (map fst (enumerate 0 rows))"
    using z1 by (metis mset_map)
  then have mi: "mset idx = mset [0 ..< ?n]" using li by simp
  then have di: "distinct idx" by (metis distinct_upt mset_eq_imp_distinct_iff)
  define rank where "rank = (\<lambda>i. the (map_of (zip idx [0 ..< ?n]) i))"
  have rk: "rank (idx ! p) = p" if "p < ?n" for p
    using map_of_zip_nth [of idx "[0 ..< ?n]" p] li len di that by (simp add: rank_def)
  have keys: "map (rank \<circ> fst) ?zs = [0 ..< ?n]"
    using li len rk by (intro nth_equalityI) simp_all
  then have dk: "distinct (map (rank \<circ> fst) ?zs)" by simp
  then have dz: "distinct ?zs" and inj: "inj_on (rank \<circ> fst) (set ?zs)"
    by (simp_all add: distinct_map)
  have sets: "set (enumerate 0 rows) = set ?zs"
    using z1 by (metis set_mset_mset)
  have s1: "sort_key (rank \<circ> fst) (enumerate 0 rows) = ?zs"
  proof (rule properties_for_sort_key)
    show "mset ?zs = mset (enumerate 0 rows)" by (rule z1)
    show "sorted (map (rank \<circ> fst) ?zs)" by (simp only: keys) simp
    fix k assume k: "k \<in> set ?zs"
    have "filter (\<lambda>x. (rank \<circ> fst) k = (rank \<circ> fst) x) ?zs = [k]"
      using dz k inj by (rule filter_single)
    moreover have "filter (\<lambda>x. (rank \<circ> fst) k = (rank \<circ> fst) x) (enumerate 0 rows) = [k]"
      using distinct_enumerate k inj unfolding sets [symmetric] by (rule filter_single)
    ultimately show "filter (\<lambda>x. (rank \<circ> fst) k = (rank \<circ> fst) x) ?zs
        = filter (\<lambda>x. (rank \<circ> fst) k = (rank \<circ> fst) x) (enumerate 0 rows)"
      by simp
  qed
  have sn: "map snd ?zs = ys" using li by simp
  then have "sorted (map (key \<circ> snd) ?zs)" using srt by (simp add: map_map [symmetric] del: map_map)
  then have "sort_key (key \<circ> snd) ?zs = ?zs" by (rule sort_key_id_if_sorted)
  with s1 sn have "order_rows rank key rows = ys" by (simp add: order_rows_def)
  then show ?thesis by blast
qed

section \<open>Promotion check\<close>

lemma select_unconsolidated_eq:
  "select_unconsolidated lvl n rows s =
     (take n (order_rows (tie_order s (order_queries s)) created_at (unconsolidated_at lvl rows)),
      s\<lparr>order_queries := Suc (order_queries s)\<rparr>)"
  by (simp add: select_unconsolidated_def order_by_def unconsolidated_at_def)

lemma find_upt_bound: "find P [a ..< b] = Some l \<Longrightarrow> a \<le> l \<and> l < b \<and> P l"
  by (auto simp: find_Some_iff)

lemma check_levels_from:
  assumes "conversation_summaries_v2 s = Some rows"
  shows "\<exists>k. check_levels config lvl s =
     (Inr (case find (\<lambda>l. recursiveThreshold config \<le> length (unconsolidated_at l rows))
             [lvl ..< maxLevel config] of
        None \<Rightarrow> \<lparr>needed = False, level = None, summaries = None\<rparr>
      | Some l \<Rightarrow>
          \<lparr>needed = True, level = Some (l + 1),
           summaries = Some (take (recursiveThreshold config)
             (order_rows (tie_order s (order_queries s + (l - lvl))) created_at
                (unconsolidated_at l rows)))\<rparr>),
      s\<lparr>order_queries := order_queries s + k\<rparr>)"
  using assms
proof (induction config lvl s rule: check_levels.induct)
  case (1 config lvl s)
  let ?t = "recursiveThreshold config"
  let ?P = "\<lambda>l. ?t \<le> length (unconsolidated_at l rows)"
  show ?case
  proof (cases "lvl < maxLevel config")
    case False
    then have "check_levels config lvl s
        = (Inr \<lparr>needed = False, level = None, summaries = None\<rparr>, s\<lparr>order_queries := order_queries s + 0\<rparr>)"
      by (simp add: check_levels.simps [of config lvl s])
    with False show ?thesis by (intro exI [of _ 0]) simp
  next
    case True
    then have upt: "[lvl ..< maxLevel config] = lvl # [lvl + 1 ..< maxLevel config]"
      by (simp add: upt_conv_Cons)
    let ?s1 = "s\<lparr>order_queries := Suc (order_queries s)\<rparr>"
    let ?ys = "order_rows (tie_order s (order_queries s)) created_at (unconsolidated_at lvl rows)"
    have sel: "select_unconsolidated lvl (?t + 1) rows s = (take (?t + 1) ?ys, ?s1)"
      by (rule select_unconsolidated_eq)
    have len: "(?t \<le> length (take (?t + 1) ?ys)) = ?P lvl" by auto
    show ?thesis
    proof (cases "?P lvl")
      case enough: True
      then have "check_levels config lvl s
          = (Inr \<lparr>needed = True, level = Some (lvl + 1), summaries = Some (take ?t ?ys)\<rparr>,
             s\<lparr>order_queries := order_queries s + 1\<rparr>)"
        using True "1.prems" sel len
        by (simp add: check_levels.simps [of config lvl s] min_def)
      with enough show ?thesis
        by (intro exI [of _ 1]) (simp add: upt del: upt_Suc)
    next
      case few: False
      then have nlen: "\<not> ?t \<le> length (take (?t + 1) ?ys)" using len by simp
      have rows1: "conversation_summaries_v2 ?s1 = Some rows" using "1.prems" by simp
      from "1.IH" [OF True "1.prems" sel [symmetric] nlen rows1]
      obtain k where k: "check_levels config (lvl + 1) ?s1 =
         (Inr (case find ?P [lvl + 1 ..< maxLevel config] of
            None \<Rightarrow> \<lparr>needed = False, level = None, summaries = None\<rparr>
          | Some l \<Rightarrow>
              \<lparr>needed = True, level = Some (l + 1),
               summaries = Some (take ?t
                 (order_rows (tie_order ?s1 (order_queries ?s1 + (l - (lvl + 1)))) created_at
                    (unconsolidated_at l rows)))\<rparr>),
          ?s1\<lparr>order_queries := order_queries ?s1 + k\<rparr>)"
        by blast
      have step: "check_levels config lvl s = check_levels config (lvl + 1) ?s1"
        using True "1.prems" sel nlen
        by (simp add: check_levels.simps [of config lvl s])
      have idx: "order_queries ?s1 + (l - (lvl + 1)) = order_queries s + (l - lvl)"
        if "find ?P [lvl + 1 ..< maxLevel config] = Some l" for l
      proof -
        from find_upt_bound [OF that] have "lvl + 1 \<le> l" by simp
        moreover have "order_queries ?s1 = Suc (order_queries s)" by simp
        ultimately show ?thesis by arith
      qed
      have "check_levels config lvl s =
         (Inr (case find ?P [lvl ..< maxLevel config] of
            None \<Rightarrow> \<lparr>needed = False, level = None, summaries = None\<rparr>
          | Some l \<Rightarrow>
              \<lparr>needed = True, level = Some (l + 1),
               summaries = Some (take ?t
                 (order_rows (tie_order s (order_queries s + (l - lvl))) created_at
                    (unconsolidated_at l rows)))\<rparr>),
          s\<lparr>order_queries := order_queries s + Suc k\<rparr>)"
      proof (cases "find ?P [lvl + 1 ..< maxLevel config]")
        case None
        with step k few show ?thesis by (simp add: upt del: upt_Suc)
      next
        case (Some l)
        have f: "find ?P [lvl ..< maxLevel config] = Some l"
          using Some few by (simp add: upt del: upt_Suc)
        have t1: "tie_order ?s1 = tie_order s" by simp
        have st1: "?s1\<lparr>order_queries := order_queries ?s1 + k\<rparr>
            = s\<lparr>order_queries := order_queries s + Suc k\<rparr>" by simp
        from k have "check_levels config (lvl + 1) ?s1 =
           (Inr \<lparr>needed = True, level = Some (l + 1),
                 summaries = Some (take ?t
                   (order_rows (tie_order s (order_queries s + (l - lvl))) created_at
                      (unconsolidated_at l rows)))\<rparr>,
            s\<lparr>order_queries := order_queries s + Suc k\<rparr>)"
          by (simp only: Some option.case idx [OF Some] t1 st1)
        with step show ?thesis by (simp only: f option.case)
      qed
      then show ?thesis by blast
    qed
  qed
qed

lemma sorted_take_drop:
  "sorted (map f ys) \<Longrightarrow> x \<in> set (take n ys) \<Longrightarrow> y \<in> set (drop n ys) \<Longrightarrow> f x \<le> f y"
proof -
  assume s: "sorted (map f ys)" and x: "x \<in> set (take n ys)" and y: "y \<in> set (drop n ys)"
  from s have "sorted (map f (take n ys) @ map f (drop n ys))"
    by (simp only: map_append [symmetric] append_take_drop_id)
  then have "\<forall>a \<in> set (map f (take n ys)). \<forall>b \<in> set (map f (drop n ys)). a \<le> b"
    unfolding sorted_append by blast
  with x y show "f x \<le> f y" by simp
qed

lemma mset_minus_take:
  "mset ys = mset cands \<Longrightarrow> mset cands - mset (take n ys) = mset (drop n ys)"
proof -
  assume "mset ys = mset cands"
  then have "mset cands = mset (take n ys) + mset (drop n ys)"
    by (simp only: mset_append [symmetric] append_take_drop_id)
  then show ?thesis by simp
qed

text \<open>
  C7. With the summaries table in place, \<open>checkRecursiveSummarizationNeeded\<close> returns,
  leaves the tables alone and answers as the promotion rule says, for some way \<open>ordered\<close>
  of reading each level's unconsolidated summaries in ascending order of \<open>created_at\<close>:
  it scans the levels from 0 up to \<open>maxLevel - 1\<close> and stops at the first one that holds
  at least \<open>recursiveThreshold\<close> unconsolidated summaries. The level it proposes is one
  more than that level, so it lies between 1 and \<open>maxLevel\<close>; the summaries it returns
  are \<open>recursiveThreshold\<close> many unconsolidated rows of that level, oldest first, and no
  unconsolidated row of the level left out is older than a returned one. It answers that
  nothing is needed exactly when no level below \<open>maxLevel\<close> holds that many. Which of
  several equally old summaries come first is the database's choice; where all
  \<open>created_at\<close> differ, the summaries returned are the head of the level's rows sorted
  by \<open>created_at\<close>.
\<close>

theorem checkRecursiveSummarizationNeeded_spec:
  assumes "conversation_summaries_v2 s = Some rows"
  shows "\<exists>ordered res s'.
      checkRecursiveSummarizationNeeded config s = (Inr res, s')
    \<and> s'\<lparr>order_queries := order_queries s\<rparr> = s
    \<and> (\<forall>lvl. mset (ordered lvl) = mset (unconsolidated_at lvl rows)
           \<and> sorted (map created_at (ordered lvl)))
    \<and> res = promotion_needed config ordered
    \<and> (\<forall>l. level res = Some l \<longrightarrow> 1 \<le> l \<and> l \<le> maxLevel config)
    \<and> (needed res \<longleftrightarrow>
         (\<exists>l < maxLevel config. recursiveThreshold config \<le> length (unconsolidated_at l rows)))
    \<and> (\<forall>l xs. level res = Some l \<and> summaries res = Some xs \<longrightarrow>
           length xs = recursiveThreshold config
           \<and> sorted (map created_at xs)
           \<and> (\<forall>x \<in> set xs. x \<in> set rows \<and> summary_level x + 1 = l
                  \<and> parent_summary_id x = None)
           \<and> (\<forall>x \<in> set xs. \<forall>y \<in># mset (unconsolidated_at (l - 1) rows) - mset xs.
                  created_at x \<le> created_at y)
           \<and> (\<forall>l' < l - 1. length (unconsolidated_at l' rows) < recursiveThreshold config))
    \<and> (distinct (map created_at rows) \<longrightarrow>
         res = promotion_needed config (\<lambda>lvl. sort_key created_at (unconsolidated_at lvl rows)))"
proof -
  let ?t = "recursiveThreshold config"
  define ordered where
    "ordered = (\<lambda>l. order_rows (tie_order s (order_queries s + l)) created_at
                      (unconsolidated_at l rows))"
  define res where "res = promotion_needed config ordered"
  have len: "length (ordered l) = length (unconsolidated_at l rows)" for l
    by (simp add: ordered_def)
  have perm: "mset (ordered l) = mset (unconsolidated_at l rows)" for l
    by (simp add: ordered_def)
  have srt: "sorted (map created_at (ordered l))" for l
    unfolding ordered_def by (rule sorted_order_rows)
  have "(case find (\<lambda>l. ?t \<le> length (unconsolidated_at l rows)) [0 ..< maxLevel config] of
        None \<Rightarrow> \<lparr>needed = False, level = None, summaries = None\<rparr>
      | Some l \<Rightarrow>
          \<lparr>needed = True, level = Some (l + 1),
           summaries = Some (take ?t
             (order_rows (tie_order s (order_queries s + (l - 0))) created_at
                (unconsolidated_at l rows)))\<rparr>) = res"
    by (simp add: res_def promotion_needed_def ordered_def split: option.split)
  with check_levels_from [OF assms, of config 0]
  obtain k where k: "checkRecursiveSummarizationNeeded config s
      = (Inr res, s\<lparr>order_queries := order_queries s + k\<rparr>)"
    unfolding checkRecursiveSummarizationNeeded_def by auto
  have st: "(s\<lparr>order_queries := order_queries s + k\<rparr>)\<lparr>order_queries := order_queries s\<rparr> = s"
    by simp
  have lv: "\<forall>l. level res = Some l \<longrightarrow> 1 \<le> l \<and> l \<le> maxLevel config"
    by (auto simp: res_def promotion_needed_def split: option.splits dest!: find_upt_bound)
  have nd: "needed res \<longleftrightarrow>
         (\<exists>l < maxLevel config. ?t \<le> length (unconsolidated_at l rows))"
    by (auto simp: res_def promotion_needed_def len find_None_iff split: option.splits
        dest: find_upt_bound)
  have sm: "\<forall>l xs. level res = Some l \<and> summaries res = Some xs \<longrightarrow>
           length xs = ?t
           \<and> sorted (map created_at xs)
           \<and> (\<forall>x \<in> set xs. x \<in> set rows \<and> summary_level x + 1 = l
                  \<and> parent_summary_id x = None)
           \<and> (\<forall>x \<in> set xs. \<forall>y \<in># mset (unconsolidated_at (l - 1) rows) - mset xs.
                  created_at x \<le> created_at y)
           \<and> (\<forall>l' < l - 1. length (unconsolidated_at l' rows) < ?t)"
  proof (intro allI impI)
    fix l xs
    assume h: "level res = Some l \<and> summaries res = Some xs"
    then obtain l0 where f: "find (\<lambda>lvl. ?t \<le> length (ordered lvl)) [0 ..< maxLevel config] = Some l0"
      and l: "l = l0 + 1"
      and xs: "xs = take ?t (ordered l0)"
      by (auto simp: res_def promotion_needed_def split: option.splits)
    from f have enough: "?t \<le> length (ordered l0)"
      by (auto dest: find_upt_bound)
    from f have before: "\<forall>l' < l0. length (unconsolidated_at l' rows) < ?t"
      by (auto simp: find_Some_iff not_le len)
    have a: "length xs = ?t" using xs enough by simp
    have b: "sorted (map created_at xs)"
      unfolding xs take_map [symmetric] by (rule sorted_wrt_take [OF srt])
    have "set xs \<subseteq> set (unconsolidated_at l0 rows)"
      using xs set_take_subset [of ?t "ordered l0"] by (simp add: ordered_def)
    then have c: "\<forall>x \<in> set xs. x \<in> set rows \<and> summary_level x + 1 = l
                  \<and> parent_summary_id x = None"
      using l by (auto simp: unconsolidated_at_def)
    have rest: "mset (unconsolidated_at (l - 1) rows) - mset xs = mset (drop ?t (ordered l0))"
      using mset_minus_take [OF perm, of l0 ?t] l xs by simp
    have d: "\<forall>x \<in> set xs. \<forall>y \<in># mset (unconsolidated_at (l - 1) rows) - mset xs.
                  created_at x \<le> created_at y"
      unfolding rest using sorted_take_drop [OF srt, of _ ?t l0] xs by simp
    have e: "\<forall>l' < l - 1. length (unconsolidated_at l' rows) < ?t"
      using before l by simp
    from a b c d e show "length xs = ?t
           \<and> sorted (map created_at xs)
           \<and> (\<forall>x \<in> set xs. x \<in> set rows \<and> summary_level x + 1 = l
                  \<and> parent_summary_id x = None)
           \<and> (\<forall>x \<in> set xs. \<forall>y \<in># mset (unconsolidated_at (l - 1) rows) - mset xs.
                  created_at x \<le> created_at y)
           \<and> (\<forall>l' < l - 1. length (unconsolidated_at l' rows) < ?t)"
      by blast
  qed
  have dt: "distinct (map created_at rows) \<longrightarrow>
         res = promotion_needed config (\<lambda>lvl. sort_key created_at (unconsolidated_at lvl rows))"
  proof
    assume "distinct (map created_at rows)"
    then have "distinct (map created_at (unconsolidated_at l rows))" for l
      by (simp add: unconsolidated_at_def distinct_map_filter)
    then have "ordered = (\<lambda>lvl. sort_key created_at (unconsolidated_at lvl rows))"
      by (simp add: ordered_def order_rows_distinct)
    then show "res = promotion_needed config (\<lambda>lvl. sort_key created_at (unconsolidated_at lvl rows))"
      by (simp add: res_def)
  qed
  from k st perm srt lv nd sm dt show ?thesis
    by (intro exI [of _ ordered] exI [of _ res]
        exI [of _ "s\<lparr>order_queries := order_queries s + k\<rparr>"]) (simp add: res_def)
qed

lemma ladder_check:
  "fst (checkRecursiveSummarizationNeeded DEFAULT_CONFIG ladder_store)
     = Inr \<lparr>needed = True, level = Some 1,
            summaries = Some (map base_row [1, 2, 3, 4, 5, 6, 7, 8, 9, 10])\<rparr>"
  by (simp add: checkRecursiveSummarizationNeeded_def check_levels.simps [of _ 0]
      select_unconsolidated_def order_by_def order_rows_def DEFAULT_CONFIG_def
      ladder_store_def ladder_rows_def base_row_def fresh_store_def)

lemma tie_check:
  "fst (checkRecursiveSummarizationNeeded pairs_config tie_store)
     = Inr \<lparr>needed = True, level = Some 1,
            summaries = Some [(base_row 1)\<lparr>created_at := 1000\<rparr>,
                              (base_row 3)\<lparr>created_at := 1001\<rparr>]\<rparr>"
  by (simp add: checkRecursiveSummarizationNeeded_def check_levels.simps [of _ 0]
      select_unconsolidated_def order_by_def order_rows_def DEFAULT_CONFIG_def pairs_config_def
      tie_store_def tie_rows_def base_row_def fresh_store_def)

theorem checkRecursiveSummarizationNeeded_spec_witness:
  "conversation_summaries_v2 tie_store = Some tie_rows
   \<and> fst (checkRecursiveSummarizationNeeded pairs_config tie_store)
       = Inr \<lparr>needed = True, level = Some 1,
              summaries = Some [(base_row 1)\<lparr>created_at := 1000\<rparr>,
                                (base_row 3)\<lparr>created_at := 1001\<rparr>]\<rparr>
   \<and> (1 :: nat) \<le> maxLevel pairs_config
   \<and> length [(base_row 1)\<lparr>created_at := 1000\<rparr>, (base_row 3)\<lparr>created_at := 1001\<rparr>]
       = recursiveThreshold pairs_config
   \<and> (\<exists>l < maxLevel pairs_config.
         recursiveThreshold pairs_config \<le> length (unconsolidated_at l tie_rows))
   \<and> conversation_summaries_v2 ladder_store = Some ladder_rows
   \<and> distinct (map created_at ladder_rows)
   \<and> fst (checkRecursiveSummarizationNeeded DEFAULT_CONFIG ladder_store)
       = Inr (promotion_needed DEFAULT_CONFIG
                (\<lambda>lvl. sort_key created_at (unconsolidated_at lvl ladder_rows)))"
proof -
  have g: "conversation_summaries_v2 ladder_store = Some ladder_rows"
    by (simp add: ladder_store_def)
  have d: "distinct (map created_at ladder_rows)"
    by (simp add: ladder_rows_def base_row_def)
  from checkRecursiveSummarizationNeeded_spec [OF g, of DEFAULT_CONFIG] d
  have ladder: "fst (checkRecursiveSummarizationNeeded DEFAULT_CONFIG ladder_store)
       = Inr (promotion_needed DEFAULT_CONFIG
                (\<lambda>lvl. sort_key created_at (unconsolidated_at lvl ladder_rows)))"
    by auto
  have h: "conversation_summaries_v2 tie_store = Some tie_rows"
    by (simp add: tie_store_def)
  from checkRecursiveSummarizationNeeded_spec [OF h, of pairs_config]
  obtain res s' where r: "checkRecursiveSummarizationNeeded pairs_config tie_store = (Inr res, s')"
    and lv: "\<forall>l. level res = Some l \<longrightarrow> 1 \<le> l \<and> l \<le> maxLevel pairs_config"
    and nd: "needed res \<longleftrightarrow>
         (\<exists>l < maxLevel pairs_config.
            recursiveThreshold pairs_config \<le> length (unconsolidated_at l tie_rows))"
    and sm: "\<forall>l xs. level res = Some l \<and> summaries res = Some xs \<longrightarrow>
           length xs = recursiveThreshold pairs_config"
    by blast
  from r tie_check have res: "res = \<lparr>needed = True, level = Some 1,
              summaries = Some [(base_row 1)\<lparr>created_at := 1000\<rparr>,
                                (base_row 3)\<lparr>created_at := 1001\<rparr>]\<rparr>"
    by simp
  from lv res have "(1 :: nat) \<le> maxLevel pairs_config" by simp
  moreover from sm res
  have "length [(base_row 1)\<lparr>created_at := 1000\<rparr>, (base_row 3)\<lparr>created_at := 1001\<rparr>]
       = recursiveThreshold pairs_config"
    by simp
  moreover from nd res
  have "\<exists>l < maxLevel pairs_config.
         recursiveThreshold pairs_config \<le> length (unconsolidated_at l tie_rows)"
    by simp
  ultimately show ?thesis using h tie_check g d ladder by simp
qed

section \<open>Consolidation of summaries\<close>

lemma find_append_Some: "find P xs = Some x \<Longrightarrow> find P (xs @ ys) = Some x"
  by (induction xs) auto


lemma insert_summary_parent:
  "parent_of s i = Some q \<Longrightarrow> parent_of (snd (insert_summary txt lvl cnt ts s)) i = Some q"
  by (auto simp: parent_of_def insert_summary_def Let_def find_append_Some split: option.splits)

lemma Date_now_parent [simp]: "parent_of (snd (Date_now s)) i = parent_of s i"
  by (simp add: parent_of_def)

lemma ask_llm_parent [simp]: "parent_of (snd (ask_llm a b s)) i = parent_of s i"
  by (simp add: parent_of_def ask_llm_def)

lemma stamp_and_insert_parent:
  "parent_of s i = Some q \<Longrightarrow>
     parent_of (snd (case Date_now s of (timestamp, s2) \<Rightarrow> insert_summary txt lvl cnt timestamp s2)) i
       = Some q"
  by (simp add: split_beta insert_summary_parent)
















section \<open>Inserting content\<close>

lemma trim_unchanged:
  assumes "s \<noteq> []" "\<not> isWhiteSpace (hd s)" "\<not> isWhiteSpace (last s)"
  shows "trim s = s"
proof -
  from assms have "dropWhile isWhiteSpace s = s"
    by (cases s) auto
  moreover from assms have "dropWhile isWhiteSpace (rev s) = rev s"
    by (cases "rev s") (auto simp: last_rev [symmetric] hd_rev simp del: last_rev)
  ultimately show ?thesis by (simp add: trim_def)
qed

lemma getBlock_tables [simp]:
  "memory_blocks (snd (getBlock i s)) = memory_blocks s"
  "memory_embeddings (snd (getBlock i s)) = memory_embeddings s"
  "agent_memory (snd (getBlock i s)) = agent_memory s"
  "agent_memory_legacy_backup (snd (getBlock i s)) = agent_memory_legacy_backup s"
  by (auto simp: getBlock_def split: option.splits)

lemma getBlock_found_cached:
  "getBlock i s = (Inr (Some b), s1) \<Longrightarrow> blocksCache s1 i = Some b"
  by (auto simp: getBlock_def split: option.splits)

lemma getBlock_missing:
  "getBlock i s = (Inr None, s1) \<Longrightarrow> s1 = s"
  by (auto simp: getBlock_def split: option.splits)

lemma updated_rows_ids:
  "map row_id (map (\<lambda>r. if row_id r = i then r\<lparr>row_content := c, row_updated_at := t\<rparr> else r) rows)
     = map row_id rows"
  by (induction rows) auto

lemma updated_rows_content:
  assumes "r \<in> set (map (\<lambda>x. if row_id x = i then x\<lparr>row_content := c, row_updated_at := t\<rparr> else x) rows)"
    and "row_id r = i"
  shows "row_content r = c"
proof -
  from assms(1) have "r \<in> (\<lambda>x. if row_id x = i then x\<lparr>row_content := c, row_updated_at := t\<rparr> else x) ` set rows"
    by (simp only: set_map)
  then obtain x where
    r: "r = (if row_id x = i then x\<lparr>row_content := c, row_updated_at := t\<rparr> else x)"
    by (rule imageE)
  show ?thesis
  proof (cases "row_id x = i")
    case True
    with r show ?thesis by simp
  next
    case False
    with r assms(2) show ?thesis by simp
  qed
qed

lemma updateBlock_result:
  assumes "blocksCache s i = Some b" "memory_blocks s = Some rows"
  shows "\<exists>s'. updateBlock i c s = (Inr (), s')
           \<and> blockContent i s' = Some c
           \<and> (\<exists>rows'. memory_blocks s' = Some rows'
                 \<and> map row_id rows' = map row_id rows
                 \<and> (\<forall>r \<in> set rows'. row_id r = i \<longrightarrow> row_content r = c))"
proof -
  let ?t = "date_now s (now_reads s)"
  let ?rows' = "map (\<lambda>r. if row_id r = i then r\<lparr>row_content := c, row_updated_at := ?t\<rparr> else r) rows"
  let ?s' = "s\<lparr>now_reads := Suc (now_reads s), memory_blocks := Some ?rows',
                blocksCache := (blocksCache s)(i \<mapsto> b\<lparr>content := c, updated_at := ?t\<rparr>)\<rparr>"
  have "updateBlock i c s = (Inr (), ?s')"
    using assms by (simp add: updateBlock_def Date_now_def Let_def)
  moreover have "blockContent i ?s' = Some c"
    by (simp add: blockContent_def getBlock_def)
  moreover have "memory_blocks ?s' = Some ?rows'" by simp
  moreover have "map row_id ?rows' = map row_id rows" by (rule updated_rows_ids)
  moreover have "\<forall>r \<in> set ?rows'. row_id r = i \<longrightarrow> row_content r = c"
    using updated_rows_content by blast
  ultimately show ?thesis by blast
qed

text \<open>
  C2, as the code has it. Where \<open>getBlock\<close> finds a block with content \<open>old\<close> and the
  blocks table exists, \<open>insertContent\<close> succeeds and sets the content, in the cache and in
  every row with that id, to \<open>trim(old + "\n" + x)\<close> at the end and to
  \<open>trim(x + "\n" + old)\<close> at the start; no row is added or removed. Where \<open>getBlock\<close>
  finds no block, it fails with a \<open>MemoryError\<close> that says so and leaves the store as it
  was. Trimming changes nothing when the joined text neither begins nor ends with white
  space: then the new content is \<open>old\<close>, one newline and \<open>x\<close> (or the other way round).
\<close>

theorem insertContent_spec:
  "(getBlock i s = (Inr (Some b), s1) \<and> memory_blocks s = Some rows \<longrightarrow>
      (\<exists>s'. insertContent i x pos s = (Inr (), s')
         \<and> blockContent i s' = Some (trim (inserted pos (content b) x))
         \<and> (\<exists>rows'. memory_blocks s' = Some rows' \<and> map row_id rows' = map row_id rows
               \<and> (\<forall>r \<in> set rows'. row_id r = i \<longrightarrow>
                      row_content r = trim (inserted pos (content b) x)))))
   \<and> (getBlock i s = (Inr None, s1) \<longrightarrow>
        insertContent i x pos s
          = (Inl (MemoryError ''insertContent'' (Msg (''Block not found: '' @ i))), s))
   \<and> (old \<noteq> [] \<and> \<not> isWhiteSpace (hd old) \<and> x \<noteq> [] \<and> \<not> isWhiteSpace (last x) \<longrightarrow>
        trim (inserted End old x) = old @ ''\<newline>'' @ x)
   \<and> (x \<noteq> [] \<and> \<not> isWhiteSpace (hd x) \<and> old \<noteq> [] \<and> \<not> isWhiteSpace (last old) \<longrightarrow>
        trim (inserted Start old x) = x @ ''\<newline>'' @ old)"
proof (intro conjI impI)
  assume h: "getBlock i s = (Inr (Some b), s1) \<and> memory_blocks s = Some rows"
  then have cached: "blocksCache s1 i = Some b"
    by (auto dest: getBlock_found_cached)
  from h getBlock_tables(1) [of i s] have rows: "memory_blocks s1 = Some rows"
    by simp
  from updateBlock_result [OF cached rows, of "trim (inserted pos (content b) x)"]
  obtain s' where "updateBlock i (trim (inserted pos (content b) x)) s1 = (Inr (), s')"
    and "blockContent i s' = Some (trim (inserted pos (content b) x))"
    and "\<exists>rows'. memory_blocks s' = Some rows' \<and> map row_id rows' = map row_id rows
               \<and> (\<forall>r \<in> set rows'. row_id r = i \<longrightarrow>
                      row_content r = trim (inserted pos (content b) x))"
    by blast
  moreover from h have "insertContent i x pos s
      = updateBlock i (trim (inserted pos (content b) x)) s1"
    by (simp add: insertContent_def inserted_def)
  ultimately show "\<exists>s'. insertContent i x pos s = (Inr (), s')
         \<and> blockContent i s' = Some (trim (inserted pos (content b) x))
         \<and> (\<exists>rows'. memory_blocks s' = Some rows' \<and> map row_id rows' = map row_id rows
               \<and> (\<forall>r \<in> set rows'. row_id r = i \<longrightarrow>
                      row_content r = trim (inserted pos (content b) x)))"
    by auto
next
  assume h: "getBlock i s = (Inr None, s1)"
  with getBlock_missing [OF h]
  show "insertContent i x pos s
          = (Inl (MemoryError ''insertContent'' (Msg (''Block not found: '' @ i))), s)"
    by (simp add: insertContent_def)
next
  assume "old \<noteq> [] \<and> \<not> isWhiteSpace (hd old) \<and> x \<noteq> [] \<and> \<not> isWhiteSpace (last x)"
  then show "trim (inserted End old x) = old @ ''\<newline>'' @ x"
    by (simp add: inserted_def trim_unchanged)
next
  assume "x \<noteq> [] \<and> \<not> isWhiteSpace (hd x) \<and> old \<noteq> [] \<and> \<not> isWhiteSpace (last old)"
  then show "trim (inserted Start old x) = x @ ''\<newline>'' @ old"
    by (simp add: inserted_def trim_unchanged)
qed

lemma original_store_fields:
  "memory_blocks original_store
     = Some [\<lparr>row_id = ''b'', row_label = ''Block'', row_content = ''Original content'',
              row_type = Core, row_updated_at = 1000, row_metadata = JsonText []\<rparr>]"
  "blocksCache original_store
     = [''b'' \<mapsto> \<lparr>block_id = ''b'', label = ''Block'', content = ''Original content'',
                   block_type = Core, updated_at = 1000, metadata = []\<rparr>]"
  by (simp_all add: original_store_def createBlock_def Date_now_def Let_def ready_store_defs)

text \<open>
  C2 as stated fails: after an insert at the end of a text that ends with a space, the
  content does not end with that text.
\<close>

theorem insertContent_end_counterexample:
  "blockContent ''b'' (snd (insertContent ''b'' ''New content '' End original_store))
     = Some ''Original content\<newline>New content''
   \<and> \<not> suffix ''New content '' ''Original content\<newline>New content''"
  by (simp add: blockContent_def insertContent_def getBlock_def updateBlock_def Date_now_def
      Let_def original_store_fields trim_def isWhiteSpace_def suffix_def)

theorem insertContent_spec_witness:
  "getBlock ''b'' original_store
     = (Inr (Some \<lparr>block_id = ''b'', label = ''Block'', content = ''Original content'',
                   block_type = Core, updated_at = 1000, metadata = []\<rparr>), original_store)
   \<and> fst (insertContent ''b'' ''New content'' End original_store) = Inr ()
   \<and> blockContent ''b'' (snd (insertContent ''b'' ''New content'' End original_store))
       = Some ''Original content\<newline>New content''
   \<and> getBlock ''missing'' original_store = (Inr None, original_store)
   \<and> insertContent ''missing'' ''New content'' End original_store
       = (Inl (MemoryError ''insertContent'' (Msg ''Block not found: missing'')), original_store)"
proof -
  let ?b = "\<lparr>block_id = ''b'', label = ''Block'', content = ''Original content'',
                   block_type = Core, updated_at = 1000, metadata = []\<rparr>"
  have g: "getBlock ''b'' original_store = (Inr (Some ?b), original_store)"
    by (simp add: getBlock_def original_store_fields)
  have m: "getBlock ''missing'' original_store = (Inr None, original_store)"
    by (simp add: getBlock_def original_store_fields)
  have t: "''Original content'' \<noteq> [] \<and> \<not> isWhiteSpace (hd ''Original content'')
      \<and> ''New content'' \<noteq> [] \<and> \<not> isWhiteSpace (last ''New content'')"
    by (simp add: isWhiteSpace_def)
  note spec = insertContent_spec [where i = "''b''" and s = original_store and b = ?b
      and ?s1.0 = original_store and x = "''New content''" and pos = End
      and old = "''Original content''"
      and rows = "[\<lparr>row_id = ''b'', row_label = ''Block'', row_content = ''Original content'',
              row_type = Core, row_updated_at = 1000, row_metadata = JsonText []\<rparr>]"]
    insertContent_spec [where i = "''missing''" and s = original_store
      and ?s1.0 = original_store and x = "''New content''" and pos = End]
  from spec(1) g t original_store_fields(1)
  have 1: "fst (insertContent ''b'' ''New content'' End original_store) = Inr ()
     \<and> blockContent ''b'' (snd (insertContent ''b'' ''New content'' End original_store))
       = Some ''Original content\<newline>New content''"
    by (auto simp: inserted_def)
  from spec(2) m
  have 2: "insertContent ''missing'' ''New content'' End original_store
       = (Inl (MemoryError ''insertContent'' (Msg ''Block not found: missing'')), original_store)"
    by simp
  from g m 1 2 show ?thesis by simp
qed

section \<open>Block writes and the embedding table\<close>

text \<open>
  C1. The documentation says that creating or updating a block refreshes its embedding.
  \<open>createBlock\<close> and \<open>updateBlock\<close> do neither: whatever the store and the arguments,
  they leave the embedding table as it was and ask the embedding model nothing, where
  \<open>updateBlockEmbedding\<close> on the same store adds a row for the block.
\<close>

theorem block_writes_skip_embedding:
  "memory_embeddings (snd (createBlock i l c t s)) = memory_embeddings s
   \<and> ai_calls (snd (createBlock i l c t s)) = ai_calls s
   \<and> memory_embeddings (snd (updateBlock i c s)) = memory_embeddings s
   \<and> ai_calls (snd (updateBlock i c s)) = ai_calls s
   \<and> fst (createBlock ''b'' ''Block'' ''Original content'' Core ready_store)
       = Inr \<lparr>block_id = ''b'', label = ''Block'', content = ''Original content'',
              block_type = Core, updated_at = 1000, metadata = []\<rparr>
   \<and> memory_embeddings original_store = Some []
   \<and> memory_embeddings (snd (updateBlockEmbedding ''b'' ''Original content'' original_store))
       = Some [\<lparr>emb_block_id = ''b'', embedding = [1, 0, 0], emb_updated_at = 1001\<rparr>]"
proof -
  have "memory_embeddings (snd (createBlock i l c t s)) = memory_embeddings s
      \<and> ai_calls (snd (createBlock i l c t s)) = ai_calls s"
    by (simp add: createBlock_def Date_now_def Let_def split: option.splits)
  moreover have "memory_embeddings (snd (updateBlock i c s)) = memory_embeddings s
      \<and> ai_calls (snd (updateBlock i c s)) = ai_calls s"
    by (simp add: updateBlock_def Date_now_def Let_def split: option.splits)
  moreover have "fst (createBlock ''b'' ''Block'' ''Original content'' Core ready_store)
       = Inr \<lparr>block_id = ''b'', label = ''Block'', content = ''Original content'',
              block_type = Core, updated_at = 1000, metadata = []\<rparr>"
    by (simp add: createBlock_def Date_now_def Let_def ready_store_defs)
  moreover have e: "memory_embeddings original_store = Some []"
    by (simp add: original_store_def createBlock_def Date_now_def Let_def ready_store_defs)
  moreover have "memory_embeddings (snd (updateBlockEmbedding ''b'' ''Original content'' original_store))
       = Some [\<lparr>emb_block_id = ''b'', embedding = [1, 0, 0], emb_updated_at = 1001\<rparr>]"
    by (simp add: updateBlockEmbedding_def generateEmbedding_def storeBlockEmbedding_def
        original_store_def createBlock_def Date_now_def Let_def ready_store_defs)
  ultimately show ?thesis by blast
qed

section \<open>Replacing content\<close>

lemma getSubstitution_plain:
  "CHR ''$'' \<notin> set r \<Longrightarrow> getSubstitution m str p r = r"
  by (induction m str p r rule: getSubstitution.induct) auto

lemma replace_plain:
  "CHR ''$'' \<notin> set new \<Longrightarrow> replace s old new = replace_first s old new"
  by (simp add: replace_def replace_first_def getSubstitution_plain split: option.splits)

lemma executeMemoryReplace_content_not_found:
  assumes "getBlock i s = (Inr (Some b), s1)" and "\<not> string_includes (content b) old_content"
  shows "\<exists>m. executeMemoryReplace i old_content new_content s
            = (Inr \<lparr>success = False, message = m\<rparr>, s1)"
    and "memory_blocks s1 = memory_blocks s"
  using assms getBlock_tables(1) [of i s]
  by (simp_all add: executeMemoryReplace_def)

lemma executeMemoryReplace_plain:
  assumes "getBlock i s = (Inr (Some b), s1)" and "string_includes (content b) old_content"
    and "memory_blocks s = Some rows" and "CHR ''$'' \<notin> set new_content"
  shows "\<exists>s' m. executeMemoryReplace i old_content new_content s
            = (Inr \<lparr>success = True, message = m\<rparr>, s')
          \<and> blockContent i s' = Some (replace_first (content b) old_content new_content)"
proof -
  from assms(1) have cached: "blocksCache s1 i = Some b"
    by (rule getBlock_found_cached)
  from assms(1,3) getBlock_tables(1) [of i s] have rows: "memory_blocks s1 = Some rows"
    by simp
  have again: "getBlock i s1 = (Inr (Some b), s1)"
    using cached by (simp add: getBlock_def)
  from updateBlock_result [OF cached rows, of "replace_first (content b) old_content new_content"]
  obtain s' where u: "updateBlock i (replace_first (content b) old_content new_content) s1 = (Inr (), s')"
    and c: "blockContent i s' = Some (replace_first (content b) old_content new_content)"
    by blast
  have "replaceContent i old_content new_content s1 = (Inr (), s')"
    using again u assms(4) by (simp add: replaceContent_def replace_plain)
  with assms(1,2) c show ?thesis
    by (simp add: executeMemoryReplace_def)
qed

lemma old_text_store_fields:
  "memory_blocks old_text_store
     = Some [\<lparr>row_id = ''b'', row_label = ''Block'', row_content = ''The old text here'',
              row_type = Core, row_updated_at = 1000, row_metadata = JsonText []\<rparr>]"
  "blocksCache old_text_store
     = [''b'' \<mapsto> \<lparr>block_id = ''b'', label = ''Block'', content = ''The old text here'',
                   block_type = Core, updated_at = 1000, metadata = []\<rparr>]"
  by (simp_all add: old_text_store_def createBlock_def Date_now_def Let_def ready_store_defs)

lemma old_text_index: "indexOf ''The old text here'' ''old text'' = Some 4"
  by simp

text \<open>
  C3. The tool promises to put the new text in place of the old one. With the block
  content \<open>The old text here\<close>, replacing \<open>old text\<close> by \<open>new text\<close> gives
  \<open>The new text here\<close>; replacing it by \<open>$&!\<close> should give \<open>The $&! here\<close>, and
  the code stores \<open>The old text! here\<close>, because \<open>String.prototype.replace\<close> reads
  \<open>$&\<close> in the replacement as the matched text.
\<close>

theorem replace_dollar_pattern:
  "blockContent ''b'' (snd (executeMemoryReplace ''b'' ''old text'' ''new text'' old_text_store))
     = Some ''The new text here''
   \<and> replace_first ''The old text here'' ''old text'' ''$&!'' = ''The $&! here''
   \<and> fst (executeMemoryReplace ''b'' ''old text'' ''$&!'' old_text_store)
       = Inr \<lparr>success = True,
              message = ''Successfully replaced content in block '' @ quoted ''b''\<rparr>
   \<and> blockContent ''b'' (snd (executeMemoryReplace ''b'' ''old text'' ''$&!'' old_text_store))
       = Some ''The old text! here''"
  by (simp add: blockContent_def executeMemoryReplace_def replaceContent_def getBlock_def
      updateBlock_def Date_now_def Let_def old_text_store_fields string_includes_def
      replace_def replace_first_def quoted_def)

section \<open>Checking whether migration is needed\<close>

lemma createBlock_legacy [simp]:
  "agent_memory (snd (createBlock i l c t s)) = agent_memory s"
  "agent_memory_legacy_backup (snd (createBlock i l c t s)) = agent_memory_legacy_backup s"
  by (simp_all add: createBlock_def Date_now_def Let_def split: option.splits)

lemma updateBlock_legacy [simp]:
  "agent_memory (snd (updateBlock i c s)) = agent_memory s"
  "agent_memory_legacy_backup (snd (updateBlock i c s)) = agent_memory_legacy_backup s"
  by (simp_all add: updateBlock_def Date_now_def Let_def split: option.splits)

lemma insertContent_legacy:
  "agent_memory (snd (insertContent i x pos s)) = agent_memory s"
  "agent_memory_legacy_backup (snd (insertContent i x pos s)) = agent_memory_legacy_backup s"
proof -
  obtain r s1 where g: "getBlock i s = (r, s1)" by (cases "getBlock i s")
  with getBlock_tables(3,4) [of i s]
  have "agent_memory s1 = agent_memory s"
    and "agent_memory_legacy_backup s1 = agent_memory_legacy_backup s" by simp_all
  with g show "agent_memory (snd (insertContent i x pos s)) = agent_memory s"
    and "agent_memory_legacy_backup (snd (insertContent i x pos s)) = agent_memory_legacy_backup s"
    by (simp_all add: insertContent_def split: sum.splits option.splits)
qed

lemma getBlock_has_rows: "has_rows (snd (getBlock i s)) = has_rows s"
  by (simp add: has_rows_def)

lemma createBlock_has_rows: "has_rows s \<Longrightarrow> has_rows (snd (createBlock i l c t s))"
  by (auto simp: has_rows_def createBlock_def Date_now_def Let_def)

lemma createBlock_ok_has_rows: "createBlock i l c t s = (Inr b, s') \<Longrightarrow> has_rows s'"
  by (auto simp: has_rows_def createBlock_def Date_now_def Let_def split: option.splits if_splits)

lemma updateBlock_has_rows: "has_rows s \<Longrightarrow> has_rows (snd (updateBlock i c s))"
  by (auto simp: has_rows_def updateBlock_def Date_now_def Let_def)

lemma insertContent_has_rows:
  assumes "has_rows s"
  shows "has_rows (snd (insertContent i x pos s))"
proof -
  obtain r s1 where g: "getBlock i s = (r, s1)" by (cases "getBlock i s")
  with getBlock_has_rows [of i s] assms have "has_rows s1" by simp
  with g show ?thesis
    by (auto simp: insertContent_def updateBlock_has_rows split: sum.splits option.splits)
qed

lemma ensure_standard_blocks_has_rows:
  "has_rows s \<Longrightarrow> has_rows (snd (ensure_standard_blocks std s))"
proof (induction std arbitrary: s)
  case Nil
  then show ?case by simp
next
  case (Cons a rest)
  obtain i l c where a: "a = (i, l, c)" by (cases a)
  obtain r s1 where g: "getBlock i s = (r, s1)" by (cases "getBlock i s")
  with getBlock_has_rows [of i s] Cons.prems have h1: "has_rows s1" by simp
  show ?case
  proof (cases r)
    case (Inl e)
    with a g h1 show ?thesis by simp
  next
    case (Inr found)
    show ?thesis
    proof (cases found)
      case (Some existing)
      with a g Inr Cons.IH [OF h1] show ?thesis by simp
    next
      case None
      obtain r2 s2 where cb: "createBlock i l c Core s1 = (r2, s2)"
        by (cases "createBlock i l c Core s1")
      with createBlock_has_rows [OF h1, of i l c Core] have h2: "has_rows s2" by simp
      show ?thesis
      proof (cases r2)
        case (Inl e)
        with a g \<open>r = Inr found\<close> None cb h2 show ?thesis by simp
      next
        case (Inr blk)
        with a g \<open>r = Inr found\<close> None cb Cons.IH [OF h2] show ?thesis by simp
      qed
    qed
  qed
qed

lemma ensure_standard_blocks_legacy [simp]:
  "agent_memory (snd (ensure_standard_blocks std s)) = agent_memory s
   \<and> agent_memory_legacy_backup (snd (ensure_standard_blocks std s)) = agent_memory_legacy_backup s"
proof (induction std arbitrary: s)
  case Nil
  then show ?case by simp
next
  case (Cons a rest)
  obtain i l c where a: "a = (i, l, c)" by (cases a)
  obtain r s1 where g: "getBlock i s = (r, s1)" by (cases "getBlock i s")
  with getBlock_tables(3,4) [of i s]
  have k1: "agent_memory s1 = agent_memory s"
    "agent_memory_legacy_backup s1 = agent_memory_legacy_backup s" by simp_all
  obtain r2 s2 where cb: "createBlock i l c Core s1 = (r2, s2)"
    by (cases "createBlock i l c Core s1")
  with createBlock_legacy [of i l c Core s1] k1
  have k2: "agent_memory s2 = agent_memory s"
    "agent_memory_legacy_backup s2 = agent_memory_legacy_backup s" by simp_all
  from a g cb k1 k2 Cons.IH [of s1] Cons.IH [of s2] show ?case
    by (simp split: sum.splits option.splits)
qed

lemma ensure_standard_blocks_first:
  assumes "cache_in_table s" and std: "ensure_standard_blocks std s = (Inr u, s')"
    and "std \<noteq> []"
  shows "has_rows s'"
proof -
  from \<open>std \<noteq> []\<close> obtain a rest where "std = a # rest" by (cases std) auto
  with std have assms2: "ensure_standard_blocks (a # rest) s = (Inr u, s')" by simp
  obtain i l c where a: "a = (i, l, c)" by (cases a)
  obtain r s1 where g: "getBlock i s = (r, s1)" by (cases "getBlock i s")
  show ?thesis
  proof (cases r)
    case (Inl e)
    with a g assms2 show ?thesis by simp
  next
    case (Inr found)
    show ?thesis
    proof (cases found)
      case (Some existing)
      have "has_rows s"
      proof (cases "blocksCache s i")
        case (Some cached)
        with assms(1) show ?thesis
          by (fastforce simp: cache_in_table_def has_rows_def)
      next
        case None
        with g Inr \<open>found = Some existing\<close> obtain rows row where
          "memory_blocks s = Some rows" and "find (\<lambda>r. row_id r = i) rows = Some row"
          by (auto simp: getBlock_def split: option.splits)
        moreover from this(2) have "rows \<noteq> []" by (cases rows) auto
        ultimately show ?thesis by (simp add: has_rows_def)
      qed
      with getBlock_has_rows [of i s] g have "has_rows s1" by simp
      from ensure_standard_blocks_has_rows [OF this, of rest] a g Inr Some assms2
      show ?thesis by simp
    next
      case None
      obtain r2 s2 where cb: "createBlock i l c Core s1 = (r2, s2)"
        by (cases "createBlock i l c Core s1")
      show ?thesis
      proof (cases r2)
        case (Inl e)
        with a g \<open>r = Inr found\<close> None cb assms2 show ?thesis by simp
      next
        case (Inr blk)
        with cb have "has_rows s2" by (auto dest: createBlock_ok_has_rows)
        from ensure_standard_blocks_has_rows [OF this, of rest]
          a g \<open>r = Inr found\<close> None cb Inr assms2
        show ?thesis by simp
      qed
    qed
  qed
qed

lemma migrate_rows_has_rows:
  "has_rows s \<Longrightarrow> has_rows (snd (migrate_rows rows result s))"
proof (induction rows arbitrary: result s)
  case Nil
  then show ?case by simp
next
  case (Cons row rows)
  obtain r s1 where ins: "insertContent (targetBlock (purpose row))
                (''**'' @ purpose row @ ''**\<newline>'' @ text_col row) End s = (r, s1)"
    by (cases "insertContent (targetBlock (purpose row))
                (''**'' @ purpose row @ ''**\<newline>'' @ text_col row) End s")
  with insertContent_has_rows [OF Cons.prems, of "targetBlock (purpose row)"
      "''**'' @ purpose row @ ''**\<newline>'' @ text_col row" End]
  have h1: "has_rows s1" by simp
  show ?case
  proof (cases r)
    case (Inl e)
    with ins h1 show ?thesis by (simp add: Let_def)
  next
    case (Inr u)
    with ins Cons.IH [OF h1] show ?thesis by (simp add: Let_def)
  qed
qed

lemma migrate_rows_legacy [simp]:
  "agent_memory (snd (migrate_rows rows result s)) = agent_memory s
   \<and> agent_memory_legacy_backup (snd (migrate_rows rows result s)) = agent_memory_legacy_backup s"
proof (induction rows arbitrary: result s)
  case Nil
  then show ?case by simp
next
  case (Cons row rows)
  obtain r s1 where ins: "insertContent (targetBlock (purpose row))
                (''**'' @ purpose row @ ''**\<newline>'' @ text_col row) End s = (r, s1)"
    by (cases "insertContent (targetBlock (purpose row))
                (''**'' @ purpose row @ ''**\<newline>'' @ text_col row) End s")
  with insertContent_legacy [of "targetBlock (purpose row)"
      "''**'' @ purpose row @ ''**\<newline>'' @ text_col row" End s]
  have k1: "agent_memory s1 = agent_memory s"
    "agent_memory_legacy_backup s1 = agent_memory_legacy_backup s" by simp_all
  show ?case
  proof (cases r)
    case (Inl e)
    with ins k1 show ?thesis by (simp add: Let_def)
  next
    case (Inr u)
    with ins k1 Cons.IH [of _ s1] show ?thesis by (simp add: Let_def)
  qed
qed

lemma rename_legacy_table_blocks [simp]:
  "memory_blocks (rename_legacy_table s) = memory_blocks s"
  by (simp add: rename_legacy_table_def split: option.splits)

lemma checkMigrationNeeded_has_rows:
  "has_rows s \<Longrightarrow> checkMigrationNeeded s = (Inr False, s)"
  by (auto simp: checkMigrationNeeded_def has_rows_def Let_def split: option.splits)

lemma load_rows_dom:
  "load_rows rows cache x = Some y \<Longrightarrow> cache x \<noteq> None \<or> x \<in> set (map row_id rows)"
proof (induction rows arbitrary: cache)
  case Nil
  then show ?case by simp
next
  case (Cons row rows)
  show ?case
  proof (cases "JSON_parse_or_empty (row_metadata row)")
    case None
    with Cons.prems show ?thesis by simp
  next
    case (Some m)
    with Cons.prems
    have "load_rows rows (cache(row_id row \<mapsto> block_of_row row m)) x = Some y" by simp
    from Cons.IH [OF this] show ?thesis
      by (auto split: if_splits)
  qed
qed

lemma cache_in_table_loadCache: "cache_in_table (loadCache s)"
proof (cases "memory_blocks s")
  case None
  then show ?thesis by (simp add: cache_in_table_def loadCache_def)
next
  case (Some rows)
  have "x \<in> set (map row_id rows)"
    if "load_rows (order_rows rank (\<lambda>r. - row_updated_at r) (filter (\<lambda>r. row_type r = Core) rows))
          Map.empty x = Some y" for x y rank
    using load_rows_dom [OF that] by auto
  with Some show ?thesis
    by (auto simp: cache_in_table_def loadCache_def order_by_def)
qed

lemma cache_in_table_getBlock: "cache_in_table s \<Longrightarrow> cache_in_table (snd (getBlock i s))"
  by (auto simp: cache_in_table_def getBlock_def split: option.splits if_splits
      dest!: find_Some_iff [THEN iffD1])

lemma cache_in_table_createBlock:
  "cache_in_table s \<Longrightarrow> cache_in_table (snd (createBlock i l c t s))"
  by (auto simp: cache_in_table_def createBlock_def Date_now_def Let_def
      split: option.splits if_splits)

lemma cache_in_table_updateBlock:
  assumes "cache_in_table s"
  shows "cache_in_table (snd (updateBlock i c s))"
proof (cases "memory_blocks s")
  case None
  with assms show ?thesis
    by (simp add: cache_in_table_def updateBlock_def Date_now_def)
next
  case (Some rows)
  let ?t = "date_now s (now_reads s)"
  let ?rows' = "map (\<lambda>r. if row_id r = i then r\<lparr>row_content := c, row_updated_at := ?t\<rparr> else r) rows"
  let ?cache' = "case blocksCache s i of None \<Rightarrow> blocksCache s
                 | Some cached \<Rightarrow> (blocksCache s)(i \<mapsto> cached\<lparr>content := c, updated_at := ?t\<rparr>)"
  have post: "memory_blocks (snd (updateBlock i c s)) = Some ?rows'"
    "blocksCache (snd (updateBlock i c s)) = ?cache'"
    using Some by (simp_all add: updateBlock_def Date_now_def Let_def split: option.splits)
  have ids: "map row_id ?rows' = map row_id rows" by (rule updated_rows_ids)
  have dom: "\<And>j b. ?cache' j = Some b \<Longrightarrow> \<exists>b0. blocksCache s j = Some b0"
    by (auto split: option.splits if_splits)
  show ?thesis
    unfolding cache_in_table_def post
  proof (intro allI impI)
    fix j b assume "?cache' j = Some b"
    from dom [OF this] obtain b0 where "blocksCache s j = Some b0" by blast
    with assms Some have "j \<in> set (map row_id rows)"
      by (auto simp: cache_in_table_def)
    then show "\<exists>rows0. Some ?rows' = Some rows0 \<and> j \<in> set (map row_id rows0)"
      using ids by (metis)
  qed
qed

lemma cache_in_table_deleteBlock:
  "cache_in_table s \<Longrightarrow> cache_in_table (snd (deleteBlock i s))"
  by (fastforce simp: cache_in_table_def deleteBlock_def split: option.splits if_splits)

lemma order_by_has_rows [simp]: "has_rows (snd (order_by key rows s)) = has_rows s"
  by (simp add: has_rows_def order_by_def)

lemma order_by_legacy [simp]:
  "agent_memory (snd (order_by key rows s)) = agent_memory s"
  "agent_memory_legacy_backup (snd (order_by key rows s)) = agent_memory_legacy_backup s"
  by (simp_all add: order_by_def)

lemma migration_outcome:
  assumes h: "migrateLegacyMemoriesToBlocks s = (Inr result, s')" and pos: "migrated result \<ge> 1"
  shows "\<exists>s3. s' = rename_legacy_table s3
           \<and> agent_memory s3 = agent_memory s
           \<and> agent_memory_legacy_backup s3 = agent_memory_legacy_backup s
           \<and> agent_memory s \<noteq> None
           \<and> (cache_in_table s \<longrightarrow> has_rows s3)"
proof -
  from h pos obtain legacy0 where l0: "agent_memory s = Some legacy0"
    by (cases "agent_memory s") (auto simp: migrateLegacyMemoriesToBlocks_def)
  obtain r1 s1 where e: "ensure_standard_blocks standardBlocks s = (r1, s1)"
    by (cases "ensure_standard_blocks standardBlocks s")
  with h l0 obtain u where r1: "r1 = Inr u"
    by (cases r1) (auto simp: migrateLegacyMemoriesToBlocks_def)
  from e ensure_standard_blocks_legacy [of standardBlocks s]
  have k1: "agent_memory s1 = agent_memory s"
    "agent_memory_legacy_backup s1 = agent_memory_legacy_backup s" by simp_all
  have "standardBlocks \<noteq> []" by (simp add: standardBlocks_def)
  with e r1 have rows1: "has_rows s1" if "cache_in_table s"
    using that by (auto intro: ensure_standard_blocks_first)
  obtain memories s2 where q: "order_by legacy_updated_at legacy0 s1 = (memories, s2)"
    by (cases "order_by legacy_updated_at legacy0 s1")
  from q order_by_has_rows [of legacy_updated_at legacy0 s1] rows1
  have rows2: "has_rows s2" if "cache_in_table s"
    using that by simp
  from q order_by_legacy [of legacy_updated_at legacy0 s1] k1
  have k2: "agent_memory s2 = agent_memory s"
    "agent_memory_legacy_backup s2 = agent_memory_legacy_backup s" by simp_all
  let ?start = "\<lparr>total = length memories, migrated = 0, skipped = 0, errors = []\<rparr>"
  obtain r3 s3 where m: "migrate_rows memories ?start s2 = (r3, s3)"
    by (cases "migrate_rows memories ?start s2")
  with h l0 e r1 k1 q have r3: "r3 = Inr result"
    and s': "s' = (if migrated result > 0 then rename_legacy_table s3 else s3)"
    by (auto simp: migrateLegacyMemoriesToBlocks_def Let_def split: sum.splits)
  from m migrate_rows_has_rows [OF rows2, of memories ?start]
  have rows3: "has_rows s3" if "cache_in_table s"
    using that by simp
  from m migrate_rows_legacy [of memories ?start s2] k2
  have k3: "agent_memory s3 = agent_memory s"
    "agent_memory_legacy_backup s3 = agent_memory_legacy_backup s" by simp_all
  from pos s' have "s' = rename_legacy_table s3" by simp
  with k3 l0 rows3 show ?thesis by auto
qed

text \<open>
  C9, as the code has it. \<open>checkMigrationNeeded\<close> answers true exactly when the legacy
  table exists with at least one row and the blocks table is missing or empty; a missing
  table counts as no data, and the store is left alone. After a migration that returned
  with at least one row migrated, from a store whose cached blocks all have rows, it
  answers false: the blocks table is not empty. Where no backup table stood in the way,
  the legacy table has been renamed to the backup; where one did, the rename has failed
  unnoticed and both tables are as they were.
\<close>

theorem checkMigrationNeeded_spec:
  "checkMigrationNeeded s
     = (Inr ((\<exists>rows. agent_memory s = Some rows \<and> rows \<noteq> [])
             \<and> (memory_blocks s = None \<or> memory_blocks s = Some [])), s)
   \<and> (cache_in_table s \<and> migrateLegacyMemoriesToBlocks s = (Inr result, s')
        \<and> migrated result \<ge> 1 \<longrightarrow>
        checkMigrationNeeded s' = (Inr False, s')
        \<and> has_rows s'
        \<and> (agent_memory_legacy_backup s = None \<longrightarrow>
              agent_memory s' = None \<and> agent_memory_legacy_backup s' = agent_memory s)
        \<and> (agent_memory_legacy_backup s \<noteq> None \<longrightarrow>
              agent_memory s' = agent_memory s
              \<and> agent_memory_legacy_backup s' = agent_memory_legacy_backup s))"
proof (intro conjI impI)
  show "checkMigrationNeeded s
     = (Inr ((\<exists>rows. agent_memory s = Some rows \<and> rows \<noteq> [])
             \<and> (memory_blocks s = None \<or> memory_blocks s = Some [])), s)"
    by (auto simp: checkMigrationNeeded_def Let_def split: option.splits)
next
  assume h: "cache_in_table s \<and> migrateLegacyMemoriesToBlocks s = (Inr result, s')
        \<and> migrated result \<ge> 1"
  with migration_outcome [of s result s'] obtain s3 where
    s': "s' = rename_legacy_table s3"
    and k3: "agent_memory s3 = agent_memory s"
      "agent_memory_legacy_backup s3 = agent_memory_legacy_backup s"
    and rows3: "has_rows s3"
    by auto
  from s' rows3 show rows': "has_rows s'" by (simp add: has_rows_def)
  then show "checkMigrationNeeded s' = (Inr False, s')"
    by (rule checkMigrationNeeded_has_rows)
  {
    assume "agent_memory_legacy_backup s = None"
    with s' k3 show "agent_memory s' = None"
      and "agent_memory_legacy_backup s' = agent_memory s"
      by (auto simp: rename_legacy_table_def split: option.splits)
  }
  {
    assume "agent_memory_legacy_backup s \<noteq> None"
    with s' k3 show "agent_memory s' = agent_memory s"
      and "agent_memory_legacy_backup s' = agent_memory_legacy_backup s"
      by (auto simp: rename_legacy_table_def)
  }
qed

lemma legacy_targets:
  "targetBlock ''customer_notes'' = ''human''"
  "targetBlock ''user_preferences'' = ''human''"
  "targetBlock ''agent_info'' = ''persona''"
  by (simp_all add: targetBlock_def matches_any_def string_includes_def toLowerCase_def
      toLowerCase_char_def Let_def)

lemma legacy_store_fields:
  "memory_blocks legacy_store = Some []"
  "blocksCache legacy_store = Map.empty"
  "agent_memory_legacy_backup legacy_store = None"
  "agent_memory legacy_store =
       Some [\<lparr>purpose = ''customer_notes'', text_col = ''User likes dark mode'',
               legacy_updated_at = 1\<rparr>,
             \<lparr>purpose = ''user_preferences'', text_col = ''Prefers TypeScript'',
               legacy_updated_at = 2\<rparr>,
             \<lparr>purpose = ''agent_info'', text_col = ''I am a helpful assistant'',
               legacy_updated_at = 3\<rparr>]"
  by (simp_all add: legacy_store_def ready_store_defs)

lemma legacy_migration:
  "fst (migrateLegacyMemoriesToBlocks legacy_store)
     = Inr \<lparr>total = 3, migrated = 3, skipped = 0, errors = []\<rparr>"
  by (simp add: migrateLegacyMemoriesToBlocks_def standardBlocks_def legacy_targets
      order_by_def order_rows_def
      insertContent_def getBlock_def createBlock_def updateBlock_def Date_now_def Let_def
      legacy_store_def ready_store_defs)

lemma backup_migration:
  "fst (migrateLegacyMemoriesToBlocks backup_store)
     = Inr \<lparr>total = 3, migrated = 3, skipped = 0, errors = []\<rparr>"
  by (simp add: migrateLegacyMemoriesToBlocks_def standardBlocks_def legacy_targets
      order_by_def order_rows_def
      insertContent_def getBlock_def createBlock_def updateBlock_def Date_now_def Let_def
      backup_store_def legacy_store_def ready_store_defs)

text \<open>
  C9 as stated fails in its last words: where an earlier migration has left a backup
  table, a migration that migrates all three legacy rows leaves the legacy table under its
  own name, rows and all, and the backup table as it was. The answer afterwards is false
  all the same.
\<close>

theorem rename_skipped_counterexample:
  "fst (migrateLegacyMemoriesToBlocks backup_store)
     = Inr \<lparr>total = 3, migrated = 3, skipped = 0, errors = []\<rparr>
   \<and> agent_memory (snd (migrateLegacyMemoriesToBlocks backup_store))
       = Some [\<lparr>purpose = ''customer_notes'', text_col = ''User likes dark mode'',
               legacy_updated_at = 1\<rparr>,
             \<lparr>purpose = ''user_preferences'', text_col = ''Prefers TypeScript'',
               legacy_updated_at = 2\<rparr>,
             \<lparr>purpose = ''agent_info'', text_col = ''I am a helpful assistant'',
               legacy_updated_at = 3\<rparr>]
   \<and> agent_memory_legacy_backup (snd (migrateLegacyMemoriesToBlocks backup_store))
       = Some [\<lparr>purpose = ''old_notes'', text_col = ''Migrated before'',
                legacy_updated_at = 0\<rparr>]
   \<and> fst (checkMigrationNeeded (snd (migrateLegacyMemoriesToBlocks backup_store))) = Inr False"
proof -
  obtain s' where m: "migrateLegacyMemoriesToBlocks backup_store
       = (Inr \<lparr>total = 3, migrated = 3, skipped = 0, errors = []\<rparr>, s')"
    using backup_migration by (metis prod.collapse)
  have pre: "agent_memory backup_store
       = Some [\<lparr>purpose = ''customer_notes'', text_col = ''User likes dark mode'',
               legacy_updated_at = 1\<rparr>,
             \<lparr>purpose = ''user_preferences'', text_col = ''Prefers TypeScript'',
               legacy_updated_at = 2\<rparr>,
             \<lparr>purpose = ''agent_info'', text_col = ''I am a helpful assistant'',
               legacy_updated_at = 3\<rparr>]"
    "agent_memory_legacy_backup backup_store
       = Some [\<lparr>purpose = ''old_notes'', text_col = ''Migrated before'',
                legacy_updated_at = 0\<rparr>]"
    "memory_blocks backup_store = Some []"
    "blocksCache backup_store = Map.empty"
    by (simp_all add: backup_store_def legacy_store_def ready_store_defs)
  have c: "cache_in_table backup_store"
    by (simp add: cache_in_table_def pre)
  from migration_outcome [OF m] obtain s3 where
    s': "s' = rename_legacy_table s3"
    and k3: "agent_memory s3 = agent_memory backup_store"
      "agent_memory_legacy_backup s3 = agent_memory_legacy_backup backup_store"
    and rows3: "cache_in_table backup_store \<longrightarrow> has_rows s3"
    by auto
  from s' rows3 c have "has_rows s'" by (simp add: has_rows_def)
  then have "fst (checkMigrationNeeded s') = Inr False"
    by (simp add: checkMigrationNeeded_has_rows)
  moreover from s' k3 pre have "agent_memory s' = agent_memory backup_store"
    and "agent_memory_legacy_backup s' = agent_memory_legacy_backup backup_store"
    by (simp_all add: rename_legacy_table_def)
  ultimately show ?thesis using m pre by simp
qed

theorem checkMigrationNeeded_spec_witness:
  "cache_in_table legacy_store
   \<and> migrateLegacyMemoriesToBlocks legacy_store
       = (Inr \<lparr>total = 3, migrated = 3, skipped = 0, errors = []\<rparr>,
          snd (migrateLegacyMemoriesToBlocks legacy_store))
   \<and> migrated \<lparr>total = 3, migrated = 3, skipped = 0, errors = []\<rparr> \<ge> 1
   \<and> checkMigrationNeeded legacy_store = (Inr True, legacy_store)
   \<and> checkMigrationNeeded (snd (migrateLegacyMemoriesToBlocks legacy_store))
       = (Inr False, snd (migrateLegacyMemoriesToBlocks legacy_store))
   \<and> agent_memory_legacy_backup legacy_store = None
   \<and> agent_memory (snd (migrateLegacyMemoriesToBlocks legacy_store)) = None
   \<and> cache_in_table backup_store
   \<and> migrateLegacyMemoriesToBlocks backup_store
       = (Inr \<lparr>total = 3, migrated = 3, skipped = 0, errors = []\<rparr>,
          snd (migrateLegacyMemoriesToBlocks backup_store))
   \<and> agent_memory_legacy_backup backup_store \<noteq> None
   \<and> checkMigrationNeeded (snd (migrateLegacyMemoriesToBlocks backup_store))
       = (Inr False, snd (migrateLegacyMemoriesToBlocks backup_store))
   \<and> agent_memory (snd (migrateLegacyMemoriesToBlocks backup_store))
       = agent_memory backup_store"
proof -
  have c2: "cache_in_table backup_store"
    by (simp add: cache_in_table_def backup_store_def legacy_store_fields)
  have m2: "migrateLegacyMemoriesToBlocks backup_store
       = (Inr \<lparr>total = 3, migrated = 3, skipped = 0, errors = []\<rparr>,
          snd (migrateLegacyMemoriesToBlocks backup_store))"
    using backup_migration by (metis prod.collapse)
  have b2: "agent_memory_legacy_backup backup_store \<noteq> None"
    by (simp add: backup_store_def)
  note spec2 = checkMigrationNeeded_spec [where s = backup_store
      and result = "\<lparr>total = 3, migrated = 3, skipped = 0, errors = []\<rparr>"
      and s' = "snd (migrateLegacyMemoriesToBlocks backup_store)"]
  have n2: "migrated \<lparr>total = 3, migrated = 3, skipped = 0, errors = []\<rparr> \<ge> 1"
    by simp
  from spec2 c2 m2 n2 b2
  have after2: "checkMigrationNeeded (snd (migrateLegacyMemoriesToBlocks backup_store))
       = (Inr False, snd (migrateLegacyMemoriesToBlocks backup_store))
     \<and> agent_memory (snd (migrateLegacyMemoriesToBlocks backup_store))
       = agent_memory backup_store"
    by blast
  have c: "cache_in_table legacy_store"
    by (simp add: cache_in_table_def legacy_store_fields)
  have m: "migrateLegacyMemoriesToBlocks legacy_store
       = (Inr \<lparr>total = 3, migrated = 3, skipped = 0, errors = []\<rparr>,
          snd (migrateLegacyMemoriesToBlocks legacy_store))"
    using legacy_migration by (metis prod.collapse)
  have n: "migrated \<lparr>total = 3, migrated = 3, skipped = 0, errors = []\<rparr> \<ge> 1"
    by simp
  note spec = checkMigrationNeeded_spec [where s = legacy_store
      and result = "\<lparr>total = 3, migrated = 3, skipped = 0, errors = []\<rparr>"
      and s' = "snd (migrateLegacyMemoriesToBlocks legacy_store)"]
  from spec have before: "checkMigrationNeeded legacy_store = (Inr True, legacy_store)"
    by (simp add: legacy_store_fields)
  from spec c m n legacy_store_fields(3)
  have after: "checkMigrationNeeded (snd (migrateLegacyMemoriesToBlocks legacy_store))
       = (Inr False, snd (migrateLegacyMemoriesToBlocks legacy_store))
     \<and> agent_memory (snd (migrateLegacyMemoriesToBlocks legacy_store)) = None"
    by blast
  from c m n before after legacy_store_fields(3) c2 m2 b2 after2 show ?thesis
    by blast
qed

section \<open>Cosine similarity in exact arithmetic\<close>

text \<open>
  The code computes in IEEE doubles; here numbers are reals. The length check, the guard
  against a zero denominator and the symmetry carry over as they are. The values 1 and -1
  for equal and opposite vectors hold of the exact quotient only.
\<close>

lemma cosine_loop_sums:
  "length a = length b \<Longrightarrow>
     cosine_loop a b (d, na, nb)
       = (d + (\<Sum>(x, y) \<leftarrow> zip a b. x * y), na + (\<Sum>x \<leftarrow> a. x * x), nb + (\<Sum>y \<leftarrow> b. y * y))"
  by (induction a b arbitrary: d na nb rule: list_induct2) (simp_all add: algebra_simps)

lemma cosineSimilarity_mismatch:
  "length a \<noteq> length b \<Longrightarrow>
     cosineSimilarity a b = Inl (Defect (Msg ''Vectors must have same length''))"
  by (simp add: cosineSimilarity_def)

lemma cosineSimilarity_formula:
  assumes "length a = length b"
  shows "cosineSimilarity a b =
     Inr (if sqrt (\<Sum>x \<leftarrow> a. x * x) * sqrt (\<Sum>y \<leftarrow> b. y * y) = 0 then 0
          else (\<Sum>(x, y) \<leftarrow> zip a b. x * y)
                 / (sqrt (\<Sum>x \<leftarrow> a. x * x) * sqrt (\<Sum>y \<leftarrow> b. y * y)))"
  using assms cosine_loop_sums [OF assms, of 0 0 0]
  by (simp add: cosineSimilarity_def)

lemma zip_swap_sum:
  "length a = length b \<Longrightarrow> (\<Sum>(x, y) \<leftarrow> zip a b. x * y) = (\<Sum>(y, x) \<leftarrow> zip b a. y * (x::real))"
  by (induction a b rule: list_induct2) (simp_all add: mult.commute)

lemma cosineSimilarity_sym: "cosineSimilarity a b = cosineSimilarity b a"
proof (cases "length a = length b")
  case True
  then show ?thesis
    using zip_swap_sum [OF True]
    by (simp add: cosineSimilarity_formula mult.commute)
next
  case False
  then show ?thesis by (simp add: cosineSimilarity_def)
qed

lemma zip_self_sum: "(\<Sum>(x, y) \<leftarrow> zip q q. x * y) = (\<Sum>x \<leftarrow> q. x * (x::real))"
  by (induction q) simp_all

lemma sum_squares_nonneg: "0 \<le> (\<Sum>x \<leftarrow> q. x * (x::real))"
  by (induction q) simp_all

lemma cosineSimilarity_self:
  assumes "sqrt (\<Sum>x \<leftarrow> q. x * x) > 0"
  shows "cosineSimilarity q q = Inr 1"
proof -
  from assms have pos: "(\<Sum>x \<leftarrow> q. x * x) > 0" by simp
  have "sqrt (\<Sum>x \<leftarrow> q. x * x) * sqrt (\<Sum>x \<leftarrow> q. x * x) = (\<Sum>x \<leftarrow> q. x * x)"
    using sum_squares_nonneg [of q] by simp
  with pos show ?thesis
    by (simp add: cosineSimilarity_formula zip_self_sum)
qed

lemma zip_neg_sum: "(\<Sum>(x, y) \<leftarrow> zip q (map uminus q). x * y) = - (\<Sum>x \<leftarrow> q. x * (x::real))"
  by (induction q) simp_all

lemma neg_squares_sum: "(\<Sum>y \<leftarrow> map uminus q. y * y) = (\<Sum>x \<leftarrow> q. x * (x::real))"
  by (induction q) simp_all

lemma cosineSimilarity_opposite:
  assumes "sqrt (\<Sum>x \<leftarrow> q. x * x) > 0"
  shows "cosineSimilarity q (map uminus q) = Inr (- 1)"
proof -
  from assms have pos: "(\<Sum>x \<leftarrow> q. x * x) > 0" by simp
  have "sqrt (\<Sum>x \<leftarrow> q. x * x) * sqrt (\<Sum>x \<leftarrow> q. x * x) = (\<Sum>x \<leftarrow> q. x * x)"
    using sum_squares_nonneg [of q] by simp
  with pos show ?thesis
    by (simp add: cosineSimilarity_formula zip_neg_sum comp_def)
qed

end
